theory Spec2Isabelle
  imports Complex_Main "HOL-Library.Multiset"
begin

section \<open>Python values shared by both Lambda functions\<close>

text \<open>
  A raised exception is a value: its class and the text \<open>str(e)\<close> gives for it (written
  here without the quotation marks Python puts around names). Every function that can
  raise returns \<open>exc + 'a\<close>, with \<open>Inl\<close> for the exception.
\<close>

datatype exc_class =
  KeyError | TypeError | NameError | AttributeError | ValueError | OverflowError
  | ZeroDivisionError | JSONDecodeError | ClientError | CsvError

type_synonym exc = "exc_class \<times> string"

subsection \<open>The datetime library (UTC)\<close>

text \<open>
  A datetime is represented by its whole epoch second; the sub-second part of
  \<open>datetime.utcnow()\<close> is not modelled. The calendar is the proleptic Gregorian one that
  Python's \<open>datetime\<close> uses, years 1 to 9999.
\<close>

definition civil_from_days :: "int \<Rightarrow> int \<times> int \<times> int" where
  "civil_from_days z0 =
     (let z = z0 + 719468;
          era = z div 146097;
          doe = z mod 146097;
          yoe = (doe - doe div 1460 + doe div 36524 - doe div 146096) div 365;
          y = yoe + era * 400;
          doy = doe - (365 * yoe + yoe div 4 - yoe div 100);
          mp = (5 * doy + 2) div 153;
          d = doy - (153 * mp + 2) div 5 + 1;
          m = (if mp < 10 then mp + 3 else mp - 9)
      in (if m \<le> 2 then y + 1 else y, m, d))"

definition year :: "int \<Rightarrow> int" where
  "year t = fst (civil_from_days (t div 86400))"

definition month :: "int \<Rightarrow> int" where
  "month t = fst (snd (civil_from_days (t div 86400)))"

definition day :: "int \<Rightarrow> int" where
  "day t = snd (snd (civil_from_days (t div 86400)))"

definition hour :: "int \<Rightarrow> int" where
  "hour t = (t mod 86400) div 3600"

definition minute :: "int \<Rightarrow> int" where
  "minute t = (t mod 3600) div 60"

definition second :: "int \<Rightarrow> int" where
  "second t = t mod 60"

definition digit :: "int \<Rightarrow> char" where
  "digit d = char_of (48 + d)"

text \<open>\<open>f"{n:02d}"\<close> and \<open>%Y\<close>, for the non-negative numbers of a date.\<close>

definition pad2 :: "int \<Rightarrow> string" where
  "pad2 n = [digit (n div 10 mod 10), digit (n mod 10)]"

definition pad4 :: "int \<Rightarrow> string" where
  "pad4 n = [digit (n div 1000 mod 10), digit (n div 100 mod 10),
             digit (n div 10 mod 10), digit (n mod 10)]"

text \<open>\<open>str(n)\<close> for a year: no padding.\<close>

definition str_year :: "int \<Rightarrow> string" where
  "str_year n =
     (if n < 10 then [digit n]
      else if n < 100 then [digit (n div 10), digit (n mod 10)]
      else if n < 1000 then [digit (n div 100), digit (n div 10 mod 10), digit (n mod 10)]
      else pad4 n)"

definition date_str :: "int \<Rightarrow> string" where
  "date_str t = pad4 (year t) @ ''-'' @ pad2 (month t) @ ''-'' @ pad2 (day t)"

text \<open>\<open>dt.isoformat()\<close> of a datetime with no microseconds.\<close>

definition utc_isoformat :: "int \<Rightarrow> string" where
  "utc_isoformat t =
     date_str t @ ''T'' @ pad2 (hour t) @ '':'' @ pad2 (minute t) @ '':'' @ pad2 (second t)"

text \<open>\<open>dt.strftime('%Y-%m-%d %H:00')\<close>.\<close>

definition utc_strftime_hour :: "int \<Rightarrow> string" where
  "utc_strftime_hour t = date_str t @ '' '' @ pad2 (hour t) @ '':00''"

text \<open>
  \<open>datetime.fromtimestamp(ts)\<close> raises when the year leaves 1..9999; the bounds are
  0001-01-01T00:00:00 and 9999-12-31T23:59:59.
\<close>

definition utc_fromtimestamp :: "int \<Rightarrow> exc + int" where
  "utc_fromtimestamp ts =
     (if ts < - 62135596800 \<or> 253402300799 < ts
      then Inl (ValueError, ''year is out of range'')
      else Inr ts)"

text \<open>
  The report generator reads timestamps in the time zone of its process, so it takes the
  datetime operations it uses as a parameter; \<open>utc\<close> is the instance of a process
  running in UTC.
\<close>

record 'dt dtlib =
  fromtimestamp :: "int \<Rightarrow> exc + 'dt"
  timestamp :: "'dt \<Rightarrow> int"
  strftime_hour :: "'dt \<Rightarrow> string"
  isoformat :: "'dt \<Rightarrow> string"

definition utc :: "int dtlib" where
  "utc = \<lparr> fromtimestamp = utc_fromtimestamp,
           timestamp = (\<lambda>t. t),
           strftime_hour = utc_strftime_hour,
           isoformat = utc_isoformat \<rparr>"

subsection \<open>Python floats\<close>

text \<open>
  A finite float is represented by the rational it denotes. \<open>nearest_double\<close> rounds a
  rational to the nearest IEEE 754 double, ties to even, with the subnormal range; the
  caller decides what a result beyond the largest double does.
\<close>

fun bitlen :: "nat \<Rightarrow> nat" where
  "bitlen n = (if n = 0 then 0 else Suc (bitlen (n div 2)))"

definition round_half_even :: "rat \<Rightarrow> int" where
  "round_half_even q =
     (let f = \<lfloor>q\<rfloor>; r = q - of_int f
      in if r < 1 / 2 then f
         else if 1 / 2 < r then f + 1
         else if even f then f else f + 1)"

definition pow2 :: "int \<Rightarrow> rat" where
  "pow2 e = (if 0 \<le> e then 2 ^ nat e else 1 / 2 ^ nat (- e))"

text \<open>The binary exponent of a positive rational: \<open>2 ^ e \<le> q < 2 ^ (e + 1)\<close>.\<close>

definition exponent :: "rat \<Rightarrow> int" where
  "exponent q =
     (if 1 \<le> q then int (bitlen (nat \<lfloor>q\<rfloor>)) - 1
      else - int (bitlen (nat (\<lceil>1 / q\<rceil> - 1))))"

definition nearest_double :: "rat \<Rightarrow> rat" where
  "nearest_double q =
     (if q = 0 then 0
      else let a = \<bar>q\<bar>;
               u = pow2 (max (exponent a - 52) (- 1074));
               m = round_half_even (a / u)
           in (if q < 0 then - 1 else 1) * of_int m * u)"

definition overflows :: "rat \<Rightarrow> bool" where
  "overflows x = (pow2 1024 \<le> \<bar>x\<bar>)"

text \<open>\<open>a / b\<close> on two Python ints: the correctly rounded quotient.\<close>

definition int_truediv :: "int \<Rightarrow> int \<Rightarrow> exc + rat" where
  "int_truediv a b =
     (if b = 0 then Inl (ZeroDivisionError, ''division by zero'')
      else let x = nearest_double (of_int a / of_int b)
           in if overflows x
              then Inl (OverflowError, ''integer division result too large for a float'')
              else Inr x)"

text \<open>\<open>x * n\<close> on a float and an int that a double holds exactly; no overflow arises
  for the factors of this program (a quotient in 0..1 times 100).\<close>

definition float_mul :: "rat \<Rightarrow> rat \<Rightarrow> rat" where
  "float_mul x y = nearest_double (x * y)"

text \<open>\<open>round(x, 2)\<close> on a float: the exact value of the double is rounded to two
  decimals, ties to even, and the decimal is converted back to the nearest double.\<close>

definition round2 :: "rat \<Rightarrow> rat" where
  "round2 x = nearest_double (of_int (round_half_even (x * 100)) / 100)"

section \<open>Report generator (src/lambda/reporter/index.py)\<close>

text \<open>
  A metadata record as the scan returns it: the fields are those the ingestion worker
  writes, each of the type it writes, and each possibly absent (the report reads every
  field with \<open>item.get\<close>).
\<close>

record item =
  fileName :: "string option"
  processingStatus :: "string option"
  uploadTimestamp :: "int option"
  fileSize :: "int option"
  recordCount :: "int option"
  errorMessage :: "string option"

record summary =
  total_files_processed :: nat
  successful_files :: nat
  failed_files :: nat
  in_progress_files :: nat
  success_rate_percent :: rat
  total_records_processed :: int
  total_data_size_mb :: rat

record hour_stats =
  count_h :: nat
  completed_h :: nat
  failed_h :: nat

record error_entry =
  fileName_e :: string
  error_e :: string
  timestamp_e :: string

record top_entry =
  fileName_t :: "string option"
  recordCount_t :: int

record report_metadata =
  generated_at :: string
  report_period_start :: string
  report_period_end :: string
  environment :: string

record report =
  report_metadata :: report_metadata
  summary :: summary
  hourly_breakdown :: "(string \<times> hour_stats) list"
  errors :: "error_entry list"
  top_files :: "top_entry list"

text \<open>\<open>item.get('processingStatus') == s\<close>.\<close>

definition status_is :: "string \<Rightarrow> item \<Rightarrow> bool" where
  "status_is s i = (processingStatus i = Some s)"

text \<open>Truth value of \<open>item.get('recordCount')\<close>: absent and zero are both false.\<close>

definition has_recordCount :: "item \<Rightarrow> bool" where
  "has_recordCount i = (case recordCount i of None \<Rightarrow> False | Some n \<Rightarrow> n \<noteq> 0)"

text \<open>Truth value of \<open>item.get('errorMessage')\<close>: absent and empty are both false.\<close>

definition has_errorMessage :: "item \<Rightarrow> bool" where
  "has_errorMessage i = (case errorMessage i of None \<Rightarrow> False | Some m \<Rightarrow> m \<noteq> [])"

text \<open>\<open>int(item.get(key, 0))\<close>.\<close>

definition int_or_0 :: "int option \<Rightarrow> int" where
  "int_or_0 v = (case v of None \<Rightarrow> 0 | Some n \<Rightarrow> n)"

definition total_records_of :: "item list \<Rightarrow> int" where
  "total_records_of data = sum_list (map (\<lambda>i. int_or_0 (recordCount i)) (filter has_recordCount data))"

definition total_size_bytes_of :: "item list \<Rightarrow> int" where
  "total_size_bytes_of data = sum_list (map (\<lambda>i. int_or_0 (fileSize i)) data)"

definition count_status :: "string \<Rightarrow> item list \<Rightarrow> nat" where
  "count_status s data = length (filter (status_is s) data)"

text \<open>\<open>(completed_files / total_files * 100) if total_files > 0 else 0\<close>.\<close>

definition success_rate_of :: "nat \<Rightarrow> nat \<Rightarrow> exc + rat" where
  "success_rate_of completed_files total_files =
     (if total_files > 0
      then (case int_truediv (int completed_files) (int total_files) of
              Inl e \<Rightarrow> Inl e
            | Inr q \<Rightarrow> Inr (float_mul q 100))
      else Inr 0)"

text \<open>The hourly dictionary keeps insertion order: an association list with unique keys.\<close>

fun bump :: "string \<Rightarrow> (hour_stats \<Rightarrow> hour_stats) \<Rightarrow> (string \<times> hour_stats) list
    \<Rightarrow> (string \<times> hour_stats) list" where
  "bump k f [] = [(k, f \<lparr> count_h = 0, completed_h = 0, failed_h = 0 \<rparr>)]"
| "bump k f ((k', v) # kvs) = (if k = k' then (k', f v) # kvs else (k', v) # bump k f kvs)"

definition tally :: "item \<Rightarrow> hour_stats \<Rightarrow> hour_stats" where
  "tally i h =
     (let h1 = h \<lparr> count_h := count_h h + 1 \<rparr>
      in if status_is ''COMPLETED'' i then h1 \<lparr> completed_h := completed_h h1 + 1 \<rparr>
         else if status_is ''FAILED'' i then h1 \<lparr> failed_h := failed_h h1 + 1 \<rparr>
         else h1)"

fun hourly_loop :: "'dt dtlib \<Rightarrow> item list \<Rightarrow> (string \<times> hour_stats) list
    \<Rightarrow> exc + (string \<times> hour_stats) list" where
  "hourly_loop lib [] hourly_stats = Inr hourly_stats"
| "hourly_loop lib (i # data) hourly_stats =
     (case fromtimestamp lib (int_or_0 (uploadTimestamp i)) of
        Inl e \<Rightarrow> Inl e
      | Inr dt \<Rightarrow> hourly_loop lib data (bump (strftime_hour lib dt) (tally i) hourly_stats))"

text \<open>The dictionary appended for one failed record; only the timestamp can raise.\<close>

definition error_entry_of :: "'dt dtlib \<Rightarrow> item \<Rightarrow> exc + error_entry" where
  "error_entry_of lib i =
     (case fromtimestamp lib (int_or_0 (uploadTimestamp i)) of
        Inl e \<Rightarrow> Inl e
      | Inr dt \<Rightarrow>
          Inr \<lparr> fileName_e = (case fileName i of None \<Rightarrow> ''Unknown'' | Some n \<Rightarrow> n),
                error_e = (case errorMessage i of None \<Rightarrow> ''No error message'' | Some m \<Rightarrow> m),
                timestamp_e = isoformat lib dt \<rparr>)"

definition failed_with_message :: "item \<Rightarrow> bool" where
  "failed_with_message i = (status_is ''FAILED'' i \<and> has_errorMessage i)"

fun errors_loop :: "'dt dtlib \<Rightarrow> item list \<Rightarrow> error_entry list \<Rightarrow> exc + error_entry list" where
  "errors_loop lib [] errs = Inr errs"
| "errors_loop lib (i # data) errs =
     (if failed_with_message i
      then (case error_entry_of lib i of
              Inl e \<Rightarrow> Inl e
            | Inr entry \<Rightarrow> errors_loop lib data (errs @ [entry]))
      else errors_loop lib data errs)"

text \<open>
  \<open>sorted(xs, key=key, reverse=True)\<close>: CPython reverses the list, sorts it stably in
  ascending order and reverses the result.
\<close>

definition sorted_reverse :: "('a \<Rightarrow> int) \<Rightarrow> 'a list \<Rightarrow> 'a list" where
  "sorted_reverse key xs = rev (sort_key key (rev xs))"

definition top_candidates :: "item list \<Rightarrow> top_entry list" where
  "top_candidates data =
     map (\<lambda>i. \<lparr> fileName_t = fileName i, recordCount_t = int_or_0 (recordCount i) \<rparr>)
       (filter has_recordCount data)"

definition generate_report :: "'dt dtlib \<Rightarrow> string \<Rightarrow> 'dt \<Rightarrow> item list \<Rightarrow> 'dt \<Rightarrow> 'dt \<Rightarrow> exc + report" where
  "generate_report lib ENVIRONMENT utcnow data start_time end_time =
     (let total_files = length data;
          completed_files = count_status ''COMPLETED'' data;
          failed_files = count_status ''FAILED'' data;
          processing_files = count_status ''PROCESSING'' data;
          total_records = total_records_of data;
          total_size_bytes = total_size_bytes_of data
      in case int_truediv total_size_bytes (1024 * 1024) of
           Inl e \<Rightarrow> Inl e
         | Inr total_size_mb \<Rightarrow>
       (case success_rate_of completed_files total_files of
           Inl e \<Rightarrow> Inl e
         | Inr success_rate \<Rightarrow>
       (case hourly_loop lib data [] of
           Inl e \<Rightarrow> Inl e
         | Inr hourly_stats \<Rightarrow>
       (case errors_loop lib data [] of
           Inl e \<Rightarrow> Inl e
         | Inr errs \<Rightarrow>
           Inr \<lparr> report_metadata =
                   \<lparr> generated_at = isoformat lib utcnow,
                     report_period_start = isoformat lib start_time,
                     report_period_end = isoformat lib end_time,
                     environment = ENVIRONMENT \<rparr>,
                 summary =
                   \<lparr> total_files_processed = total_files,
                     successful_files = completed_files,
                     failed_files = failed_files,
                     in_progress_files = processing_files,
                     success_rate_percent = round2 success_rate,
                     total_records_processed = total_records,
                     total_data_size_mb = round2 total_size_mb \<rparr>,
                 hourly_breakdown = hourly_stats,
                 errors = take 10 errs,
                 top_files = take 10 (sorted_reverse recordCount_t (top_candidates data)) \<rparr>))))"

subsection \<open>Fetching the window\<close>

text \<open>
  One response of \<open>table.scan\<close>: the page's items (the key may be absent) and the
  continuation token, absent on the last page.
\<close>

record 'k response =
  Items :: "item list option"
  LastEvaluatedKey :: "'k option"

text \<open>\<open>response.get('Items', [])\<close>.\<close>

definition get_Items :: "'k response \<Rightarrow> item list" where
  "get_Items response = (case Items response of None \<Rightarrow> [] | Some xs \<Rightarrow> xs)"

text \<open>
  The \<open>while 'LastEvaluatedKey' in response\<close> loop. \<open>scan_from\<close> is \<open>table.scan\<close> with the
  filter expression fixed and the exclusive start key given. The loop runs for as long as
  the store hands out tokens, so it is a partial function: \<open>None\<close> is a fetch that never
  returns.
\<close>

partial_function (option) pagination ::
    "('k \<Rightarrow> exc + 'k response) \<Rightarrow> 'k response \<Rightarrow> item list \<Rightarrow> (exc + item list) option" where
  "pagination scan_from response items =
     (case LastEvaluatedKey response of
        None \<Rightarrow> Some (Inr items)
      | Some k \<Rightarrow>
          (case scan_from k of
             Inl e \<Rightarrow> Some (Inl e)
           | Inr response' \<Rightarrow> pagination scan_from response' (items @ get_Items response')))"

text \<open>
  \<open>scan\<close> is \<open>table.scan\<close>: it takes the two bounds of the \<open>between\<close> filter on
  \<open>uploadTimestamp\<close> and the exclusive start key, \<open>None\<close> on the first call.
\<close>

definition fetch_report_data ::
    "'dt dtlib \<Rightarrow> (int \<Rightarrow> int \<Rightarrow> 'k option \<Rightarrow> exc + 'k response) \<Rightarrow> 'dt \<Rightarrow> 'dt
      \<Rightarrow> (exc + item list) option" where
  "fetch_report_data lib scan start_time end_time =
     (let start_timestamp = timestamp lib start_time;
          end_timestamp = timestamp lib end_time
      in case scan start_timestamp end_timestamp None of
           Inl e \<Rightarrow> Some (Inl e)
         | Inr response \<Rightarrow>
             pagination (\<lambda>k. scan start_timestamp end_timestamp (Some k)) response
               (get_Items response))"

subsection \<open>The metadata store's scan\<close>

text \<open>
  The store is outside the repository; this is the contract the report generator expects
  of it (a scan with a filter and pagination). A scan call reads at most \<open>limit\<close> records
  of the table from the start key on, returns those of them that pass the filter, and
  returns a continuation token while records remain to be read. The token is the position
  to resume from.
\<close>

definition between :: "int \<Rightarrow> int \<Rightarrow> item \<Rightarrow> bool" where
  "between lo hi i = (case uploadTimestamp i of None \<Rightarrow> False | Some t \<Rightarrow> lo \<le> t \<and> t \<le> hi)"

definition paged_scan :: "item list \<Rightarrow> nat \<Rightarrow> int \<Rightarrow> int \<Rightarrow> nat option \<Rightarrow> exc + nat response" where
  "paged_scan tbl limit lo hi start_key =
     (let pos = (case start_key of None \<Rightarrow> 0 | Some k \<Rightarrow> k)
      in Inr \<lparr> Items = Some (filter (between lo hi) (take limit (drop pos tbl))),
               LastEvaluatedKey = (if pos + limit < length tbl then Some (pos + limit) else None) \<rparr>)"

subsection \<open>Notions of the specification the report is compared with\<close>

text \<open>The specification's total record count: the sum of \<open>recordCount\<close> over the COMPLETED
  records that have the field.\<close>

definition spec_total_records :: "item list \<Rightarrow> int" where
  "spec_total_records data =
     sum_list (map (\<lambda>i. int_or_0 (recordCount i))
       (filter (\<lambda>i. processingStatus i = Some ''COMPLETED'' \<and> recordCount i \<noteq> None) data))"

text \<open>A report modulo its generation timestamp.\<close>

definition without_generated_at :: "report \<Rightarrow> report" where
  "without_generated_at r = r \<lparr> report_metadata := (report_metadata r) \<lparr> generated_at := [] \<rparr> \<rparr>"

text \<open>A metadata record with every field present, for the examples.\<close>

abbreviation record_of :: "string \<Rightarrow> string \<Rightarrow> int \<Rightarrow> int option \<Rightarrow> string option \<Rightarrow> item" where
  "record_of name status ts rc msg \<equiv>
     \<lparr> fileName = Some name, processingStatus = Some status, uploadTimestamp = Some ts,
       fileSize = Some 2048, recordCount = rc, errorMessage = msg \<rparr>"

section \<open>Ingestion worker (src/lambda/processor/index.py)\<close>

subsection \<open>JSON values and the Python operations on them\<close>

text \<open>
  What \<open>json.loads\<close> returns. An object is the list of its items, each key once. Numbers
  are integers: no operation of the worker tells a float from an int.
\<close>

datatype json =
  JNull | JBool bool | JNum int | JStr string | JArr "json list" | JObj "(string \<times> json) list"

text \<open>\<open>d[k] = v\<close> on a dictionary, which keeps its keys in insertion order.\<close>

fun dict_set :: "'k \<Rightarrow> 'v \<Rightarrow> ('k \<times> 'v) list \<Rightarrow> ('k \<times> 'v) list" where
  "dict_set k v [] = [(k, v)]"
| "dict_set k v ((k', v') # d) = (if k = k' then (k', v) # d else (k', v') # dict_set k v d)"

text \<open>\<open>v[k]\<close> with a string key.\<close>

fun subscript :: "json \<Rightarrow> string \<Rightarrow> exc + json" where
  "subscript (JObj kvs) k =
     (case map_of kvs k of None \<Rightarrow> Inl (KeyError, k) | Some v \<Rightarrow> Inr v)"
| "subscript (JArr xs) k = Inl (TypeError, ''list indices must be integers or slices, not str'')"
| "subscript (JStr s) k = Inl (TypeError, ''string indices must be integers'')"
| "subscript (JNum n) k = Inl (TypeError, ''int object is not subscriptable'')"
| "subscript (JBool b) k = Inl (TypeError, ''bool object is not subscriptable'')"
| "subscript JNull k = Inl (TypeError, ''NoneType object is not subscriptable'')"

fun startswith :: "string \<Rightarrow> string \<Rightarrow> bool" where
  "startswith s [] = True"
| "startswith [] (p # ps) = False"
| "startswith (c # s) (p # ps) = (c = p \<and> startswith s ps)"

text \<open>\<open>k in s\<close> on two strings: \<open>k\<close> occurs in \<open>s\<close>.\<close>

fun occurs_in :: "string \<Rightarrow> string \<Rightarrow> bool" where
  "occurs_in k [] = (k = [])"
| "occurs_in k (c # s) = (startswith (c # s) k \<or> occurs_in k s)"

text \<open>\<open>k in v\<close> with a string \<open>k\<close>: a key of a dictionary, an element of a list, a part
  of a string; any other value is not a container.\<close>

fun contains :: "json \<Rightarrow> string \<Rightarrow> exc + bool" where
  "contains (JObj kvs) k = Inr (k \<in> set (map fst kvs))"
| "contains (JArr xs) k = Inr (JStr k \<in> set xs)"
| "contains (JStr s) k = Inr (occurs_in k s)"
| "contains (JNum n) k = Inl (TypeError, ''argument of type int is not iterable'')"
| "contains (JBool b) k = Inl (TypeError, ''argument of type bool is not iterable'')"
| "contains JNull k = Inl (TypeError, ''argument of type NoneType is not iterable'')"

text \<open>\<open>for x in v\<close>: the elements of a list, the keys of a dictionary, the characters of
  a string; any other value raises before the first round.\<close>

fun iterate :: "json \<Rightarrow> exc + json list" where
  "iterate (JArr xs) = Inr xs"
| "iterate (JObj kvs) = Inr (map (\<lambda>kv. JStr (fst kv)) kvs)"
| "iterate (JStr s) = Inr (map (\<lambda>c. JStr [c]) s)"
| "iterate (JNum n) = Inl (TypeError, ''int object is not iterable'')"
| "iterate (JBool b) = Inl (TypeError, ''bool object is not iterable'')"
| "iterate JNull = Inl (TypeError, ''NoneType object is not iterable'')"

subsection \<open>The world around the worker\<close>

text \<open>
  What the worker cannot decide: the clock, the identifiers \<open>uuid.uuid4()\<close> draws, and
  what each call to the metadata table and to the object store does. Each is given by the
  number of the reading or call.

  The text of an object is represented by what \<open>csv.reader\<close> does with it when it is
  iterated: the rows it yields, and the \<open>csv.Error\<close> it raises after them, if it raises one
  (a line end inside an unquoted field, a field beyond the size limit).
\<close>

type_synonym csv_text = "string list list \<times> exc option"

record runtime =
  clock :: "nat \<Rightarrow> int"
  uuid4 :: "nat \<Rightarrow> string"
  put_item_error :: "nat \<Rightarrow> exc option"
  get_object :: "nat \<Rightarrow> json \<Rightarrow> json \<Rightarrow> exc + csv_text"
  put_object_error :: "nat \<Rightarrow> exc option"

datatype cell = Str string | NoneCell | Rest "string list"

record row_counts =
  total_records :: nat
  valid_records :: nat
  invalid_records :: nat

record processed_data =
  summary_csv :: row_counts
  records :: "(string \<times> cell) list list"
  processed_timestamp :: string

text \<open>
  The state: how often the clock was read and each service called, the metadata table (by
  \<open>fileId\<close>) and the objects written to the processed bucket.
\<close>

record world =
  clock_reads :: nat
  uuids_drawn :: nat
  table_calls :: nat
  s3_gets :: nat
  s3_puts :: nat
  table :: "string \<rightharpoonup> (string \<times> json) list"
  processed_bucket :: "(string \<times> processed_data) list"

text \<open>\<open>datetime.utcnow()\<close>.\<close>

definition utcnow :: "runtime \<Rightarrow> world \<Rightarrow> int \<times> world" where
  "utcnow rt w = (clock rt (clock_reads w), w \<lparr> clock_reads := clock_reads w + 1 \<rparr>)"

text \<open>\<open>str(uuid.uuid4())\<close>.\<close>

definition new_uuid :: "runtime \<Rightarrow> world \<Rightarrow> string \<times> world" where
  "new_uuid rt w = (uuid4 rt (uuids_drawn w), w \<lparr> uuids_drawn := uuids_drawn w + 1 \<rparr>)"

text \<open>\<open>table.put_item(Item=item)\<close>: a full replacement of the item under its \<open>fileId\<close>.\<close>

definition put_item :: "runtime \<Rightarrow> (string \<times> json) list \<Rightarrow> world \<Rightarrow> (exc + unit) \<times> world" where
  "put_item rt item w =
     (let w1 = w \<lparr> table_calls := table_calls w + 1 \<rparr>
      in case put_item_error rt (table_calls w) of
           Some e \<Rightarrow> (Inl e, w1)
         | None \<Rightarrow>
             (case map_of item ''fileId'' of
                Some (JStr k) \<Rightarrow> (Inr (), w1 \<lparr> table := (table w1)(k \<mapsto> item) \<rparr>)
              | _ \<Rightarrow> (Inl (ClientError, ''ValidationException''), w1)))"

text \<open>\<open>s3_client.get_object(...)['Body'].read().decode('utf-8')\<close>.\<close>

definition s3_get :: "runtime \<Rightarrow> json \<Rightarrow> json \<Rightarrow> world \<Rightarrow> (exc + csv_text) \<times> world" where
  "s3_get rt bucket_name object_key w =
     (get_object rt (s3_gets w) bucket_name object_key, w \<lparr> s3_gets := s3_gets w + 1 \<rparr>)"

text \<open>\<open>s3_client.put_object\<close> to the processed bucket; the body is kept as the data that
  \<open>json.dumps\<close> renders.\<close>

definition s3_put :: "runtime \<Rightarrow> string \<Rightarrow> processed_data \<Rightarrow> world \<Rightarrow> (exc + unit) \<times> world" where
  "s3_put rt output_key processed w =
     (let w1 = w \<lparr> s3_puts := s3_puts w + 1 \<rparr>
      in case put_object_error rt (s3_puts w) of
           Some e \<Rightarrow> (Inl e, w1)
         | None \<Rightarrow> (Inr (), w1 \<lparr> processed_bucket := processed_bucket w1 @ [(output_key, processed)] \<rparr>))"

subsection \<open>update_metadata\<close>

definition update_metadata ::
    "runtime \<Rightarrow> string \<Rightarrow> json \<Rightarrow> string \<Rightarrow> json \<Rightarrow> string option \<Rightarrow> nat option \<Rightarrow> string option
      \<Rightarrow> world \<Rightarrow> (exc + unit) \<times> world" where
  "update_metadata rt file_id file_name status file_size processed_key record_count error_message w =
     (let (ts, w1) = utcnow rt w;
          (updated, w2) = utcnow rt w1;
          item = [(''fileId'', JStr file_id),
                  (''fileName'', file_name),
                  (''processingStatus'', JStr status),
                  (''uploadTimestamp'', JNum ts),
                  (''fileSize'', file_size),
                  (''lastUpdated'', JStr (utc_isoformat updated))];
          item1 = (case processed_key of
                     None \<Rightarrow> item
                   | Some k \<Rightarrow> if k \<noteq> [] then dict_set ''processedKey'' (JStr k) item else item);
          item2 = (case record_count of
                     None \<Rightarrow> item1
                   | Some n \<Rightarrow> dict_set ''recordCount'' (JNum (int n)) item1);
          item3 = (case error_message of
                     None \<Rightarrow> item2
                   | Some m \<Rightarrow> if m \<noteq> [] then dict_set ''errorMessage'' (JStr m) item2 else item2)
      in put_item rt item3 w2)"

subsection \<open>process_csv_data\<close>

text \<open>
  \<open>csv.DictReader\<close>: the first row is the header; an empty row is skipped; a row becomes
  a dictionary from the header's names to its fields. A row shorter than the header has
  \<open>None\<close> for the names left over; the fields of a row longer than the header are kept as a
  list under the key \<open>None\<close>.
\<close>

definition dict_of_row :: "string list \<Rightarrow> string list \<Rightarrow> (string option \<times> cell) list" where
  "dict_of_row fieldnames row =
     (let d = fold (\<lambda>kv d. dict_set (Some (fst kv)) (Str (snd kv)) d) (zip fieldnames row) [];
          lf = length fieldnames;
          lr = length row
      in if lf < lr then dict_set None (Rest (drop lf row)) d
         else if lf > lr then fold (\<lambda>k d. dict_set (Some k) NoneCell d) (drop lr fieldnames) d
         else d)"

definition DictReader :: "string list list \<Rightarrow> (string option \<times> cell) list list" where
  "DictReader rows =
     (case rows of
        [] \<Rightarrow> []
      | fieldnames # rest \<Rightarrow> map (dict_of_row fieldnames) (filter (\<lambda>row. row \<noteq> []) rest))"

text \<open>\<open>str.isspace\<close> on the characters below 256, and \<open>str.strip()\<close>.\<close>

definition isspace :: "char \<Rightarrow> bool" where
  "isspace c = (of_char c \<in> set [9, 10, 11, 12, 13, 28, 29, 30, 31, 32, 133, 160 :: nat])"

definition strip :: "string \<Rightarrow> string" where
  "strip s = rev (dropWhile isspace (rev (dropWhile isspace s)))"

text \<open>
  The dictionary comprehension of the row transform, item by item: \<open>k.strip()\<close> comes
  first, and raises on the key \<open>None\<close>.
\<close>

fun cleaned_row :: "(string option \<times> cell) list \<Rightarrow> (string \<times> cell) list \<Rightarrow> exc + (string \<times> cell) list" where
  "cleaned_row [] acc = Inr acc"
| "cleaned_row ((None, v) # items) acc =
     Inl (AttributeError, ''NoneType object has no attribute strip'')"
| "cleaned_row ((Some k, v) # items) acc =
     cleaned_row items
       (dict_set (strip k) (case v of Str s \<Rightarrow> Str (strip s) | NoneCell \<Rightarrow> v | Rest r \<Rightarrow> v) acc)"

fun rows_loop :: "runtime \<Rightarrow> (string option \<times> cell) list list
    \<Rightarrow> row_counts \<times> (string \<times> cell) list list \<times> world
    \<Rightarrow> row_counts \<times> (string \<times> cell) list list \<times> world" where
  "rows_loop rt [] acc = acc"
| "rows_loop rt (row # rows) (summary0, recs, w) =
     (let summary1 = summary0 \<lparr> total_records := total_records summary0 + 1 \<rparr>
      in case cleaned_row row [] of
           Inr cleaned \<Rightarrow>
             (let (now, w1) = utcnow rt w;
                  cleaned1 = dict_set ''processed_at'' (Str (utc_isoformat now)) cleaned;
                  (row_id, w2) = new_uuid rt w1;
                  cleaned2 = dict_set ''row_id'' (Str row_id) cleaned1
              in rows_loop rt rows
                   (summary1 \<lparr> valid_records := valid_records summary1 + 1 \<rparr>, recs @ [cleaned2], w2))
         | Inl e \<Rightarrow>
             rows_loop rt rows
               (summary1 \<lparr> invalid_records := invalid_records summary1 + 1 \<rparr>, recs, w))"

text \<open>
  The \<open>for row in csv_reader\<close> loop stands outside the \<open>try\<close> of the row transform: when
  the reader raises, after the rows it has yielded were handled, the exception leaves the
  function and no summary is returned.
\<close>

definition process_csv_data :: "runtime \<Rightarrow> csv_text \<Rightarrow> world \<Rightarrow> (exc + processed_data) \<times> world" where
  "process_csv_data rt csv_content w =
     (let (summary2, recs, w1) =
            rows_loop rt (DictReader (fst csv_content))
              (\<lparr> total_records = 0, valid_records = 0, invalid_records = 0 \<rparr>, [], w)
      in case snd csv_content of
           Some e \<Rightarrow> (Inl e, w1)
         | None \<Rightarrow>
             (let (now, w2) = utcnow rt w1
              in (Inr \<lparr> summary_csv = summary2, records = recs,
                       processed_timestamp = utc_isoformat now \<rparr>, w2)))"

subsection \<open>generate_output_key\<close>

text \<open>\<open>input_key.split('/')[-1]\<close> and \<open>name.rsplit('.', 1)[0]\<close>.\<close>

definition last_segment :: "string \<Rightarrow> string" where
  "last_segment s = rev (takeWhile (\<lambda>c. c \<noteq> CHR ''/'') (rev s))"

definition before_last_dot :: "string \<Rightarrow> string" where
  "before_last_dot s =
     (if CHR ''.'' \<in> set s then rev (tl (dropWhile (\<lambda>c. c \<noteq> CHR ''.'') (rev s))) else s)"

definition generate_output_key :: "runtime \<Rightarrow> json \<Rightarrow> world \<Rightarrow> (exc + string) \<times> world" where
  "generate_output_key rt input_key w =
     (case input_key of
        JStr s \<Rightarrow>
          (let filename = before_last_dot (last_segment s);
               (now, w1) = utcnow rt w
           in (Inr (''processed/'' @ str_year (year now) @ ''/'' @ pad2 (month now) @ ''/''
                    @ pad2 (day now) @ ''/'' @ filename @ ''_''
                    @ pad2 (hour now) @ pad2 (minute now) @ pad2 (second now) @ ''.json''), w1))
      | _ \<Rightarrow> (Inl (AttributeError, ''object has no attribute split''), w))"

subsection \<open>process_s3_event\<close>

text \<open>\<open>v[a][b][c]\<close>.\<close>

definition subscript3 :: "json \<Rightarrow> string \<Rightarrow> string \<Rightarrow> string \<Rightarrow> exc + json" where
  "subscript3 v a b c =
     (case subscript v a of
        Inl e \<Rightarrow> Inl e
      | Inr va \<Rightarrow> (case subscript va b of Inl e \<Rightarrow> Inl e | Inr vb \<Rightarrow> subscript vb c))"

text \<open>Lines 66 to 68: the three reads of the event record.\<close>

definition extract_s3 :: "json \<Rightarrow> exc + json \<times> json \<times> json" where
  "extract_s3 s3_record =
     (case subscript3 s3_record ''s3'' ''bucket'' ''name'' of
        Inl e \<Rightarrow> Inl e
      | Inr bucket_name \<Rightarrow>
     (case subscript3 s3_record ''s3'' ''object'' ''key'' of
        Inl e \<Rightarrow> Inl e
      | Inr object_key \<Rightarrow>
     (case subscript3 s3_record ''s3'' ''object'' ''size'' of
        Inl e \<Rightarrow> Inl e
      | Inr file_size \<Rightarrow> Inr (bucket_name, object_key, file_size))))"

text \<open>
  Lines 76 to 112, once \<open>file_id\<close> is drawn: the rest of the \<open>try\<close> block. The state reached
  when a step raises is returned with the exception.
\<close>

definition try_block :: "runtime \<Rightarrow> string \<Rightarrow> json \<Rightarrow> json \<Rightarrow> json \<Rightarrow> world \<Rightarrow> (exc + unit) \<times> world" where
  "try_block rt file_id bucket_name object_key file_size w =
     (case update_metadata rt file_id object_key ''PROCESSING'' file_size None None None w of
        (Inl e, w1) \<Rightarrow> (Inl e, w1)
      | (Inr u, w1) \<Rightarrow>
     (case s3_get rt bucket_name object_key w1 of
        (Inl e, w2) \<Rightarrow> (Inl e, w2)
      | (Inr file_content, w2) \<Rightarrow>
     (case process_csv_data rt file_content w2 of
        (Inl e, w3) \<Rightarrow> (Inl e, w3)
      | (Inr processed, w3) \<Rightarrow>
     (case generate_output_key rt object_key w3 of
        (Inl e, w4) \<Rightarrow> (Inl e, w4)
      | (Inr output_key, w4) \<Rightarrow>
     (case s3_put rt output_key processed w4 of
        (Inl e, w5) \<Rightarrow> (Inl e, w5)
      | (Inr u, w5) \<Rightarrow>
          update_metadata rt file_id object_key ''COMPLETED'' file_size
            (Some output_key) (Some (length (records processed))) None w5)))))"

text \<open>
  The whole function. An exception of lines 66 to 68 leaves \<open>file_id\<close> unbound, so the
  FAILED write of the handler raises NameError before it calls anything, and the bare
  \<open>except\<close> swallows it. After that the FAILED write is attempted with \<open>str(e)\<close>, and what
  it raises is swallowed too.
\<close>

definition process_s3_event :: "runtime \<Rightarrow> json \<Rightarrow> world \<Rightarrow> bool \<times> world" where
  "process_s3_event rt s3_record w =
     (case extract_s3 s3_record of
        Inl e \<Rightarrow> (False, w)
      | Inr (bucket_name, object_key, file_size) \<Rightarrow>
          (case new_uuid rt w of
             (file_id, w1) \<Rightarrow>
          (case try_block rt file_id bucket_name object_key file_size w1 of
             (Inr u, w2) \<Rightarrow> (True, w2)
           | (Inl e, w2) \<Rightarrow>
               (False, snd (update_metadata rt file_id object_key ''FAILED'' file_size
                              None None (Some (snd e)) w2)))))"

subsection \<open>handler\<close>

text \<open>
  An SQS record is represented by what \<open>json.loads(record['body'])\<close> does with it: the
  value it returns, or the exception it raises.
\<close>

type_synonym sqs_record = "exc + json"

record event =
  Records :: "sqs_record list"

text \<open>
  Lines 37 to 41 up to the first call of \<open>process_s3_event\<close>: the embedded events of one
  envelope, none when the parsed body has no \<open>Records\<close>.
\<close>

definition embedded_events :: "sqs_record \<Rightarrow> exc + json list" where
  "embedded_events record =
     (case record of
        Inl e \<Rightarrow> Inl e
      | Inr message_body \<Rightarrow>
          (case contains message_body ''Records'' of
             Inl e \<Rightarrow> Inl e
           | Inr False \<Rightarrow> Inr []
           | Inr True \<Rightarrow>
               (case subscript message_body ''Records'' of
                  Inl e \<Rightarrow> Inl e
                | Inr s3_records \<Rightarrow> iterate s3_records)))"

text \<open>The inner loop. \<open>process_s3_event\<close> returns a truth value whatever happens in it.\<close>

fun s3_records_loop :: "runtime \<Rightarrow> json list \<Rightarrow> nat \<times> nat \<times> world \<Rightarrow> nat \<times> nat \<times> world" where
  "s3_records_loop rt [] acc = acc"
| "s3_records_loop rt (s3_record # rest) (successful, failed, w) =
     (case process_s3_event rt s3_record w of
        (True, w1) \<Rightarrow> s3_records_loop rt rest (successful + 1, failed, w1)
      | (False, w1) \<Rightarrow> s3_records_loop rt rest (successful, failed + 1, w1))"

fun records_loop :: "runtime \<Rightarrow> sqs_record list \<Rightarrow> nat \<times> nat \<times> world \<Rightarrow> nat \<times> nat \<times> world" where
  "records_loop rt [] acc = acc"
| "records_loop rt (record # rest) (successful, failed, w) =
     (case embedded_events record of
        Inl e \<Rightarrow> records_loop rt rest (successful, failed + 1, w)
      | Inr s3_records \<Rightarrow>
          records_loop rt rest (s3_records_loop rt s3_records (successful, failed, w)))"

record counts =
  successful :: nat
  failed :: nat

record lambda_response =
  statusCode :: nat
  response_body :: counts

definition handler :: "runtime \<Rightarrow> event \<Rightarrow> world \<Rightarrow> lambda_response \<times> world" where
  "handler rt event w =
     (case records_loop rt (Records event) (0, 0, w) of
        (n_successful, n_failed, w1) \<Rightarrow>
          (\<lparr> statusCode = 200,
             response_body = \<lparr> successful = n_successful, failed = n_failed \<rparr> \<rparr>, w1))"

subsection \<open>Example inputs of the worker\<close>

text \<open>
  A runtime with no failing service: the clock gains a second every fourth reading, the
  bucket \<open>uploads\<close> holds three objects, the last with a line end the reader refuses after
  its first data row, and any other object is missing.
\<close>

definition example_runtime :: runtime where
  "example_runtime =
     \<lparr> clock = (\<lambda>n. 1700000000 + int (n div 4)),
       uuid4 = (\<lambda>n. ''id-'' @ pad2 (int n)),
       put_item_error = (\<lambda>n. None),
       get_object = (\<lambda>n bucket key.
          if bucket = JStr ''uploads'' \<and> key = JStr ''in/a.csv''
          then Inr ([['' name'', ''qty''], [''pen '', ''2'']], None)
          else if bucket = JStr ''uploads'' \<and> key = JStr ''in/long.csv''
          then Inr ([[''a'', ''b''], [''1'', ''2'', ''3'']], None)
          else if bucket = JStr ''uploads'' \<and> key = JStr ''in/cr.csv''
          then Inr ([[''a'', ''b''], [''1'', ''2'']],
                    Some (CsvError, ''new-line character seen in unquoted field''))
          else Inl (ClientError, ''NoSuchKey'')),
       put_object_error = (\<lambda>n. None) \<rparr>"

definition empty_world :: world where
  "empty_world =
     \<lparr> clock_reads = 0, uuids_drawn = 0, table_calls = 0, s3_gets = 0, s3_puts = 0,
       table = Map.empty, processed_bucket = [] \<rparr>"

text \<open>The upload event of one object.\<close>

abbreviation upload_event :: "string \<Rightarrow> string \<Rightarrow> int \<Rightarrow> json" where
  "upload_event bucket key n \<equiv>
     JObj [(''s3'', JObj [(''bucket'', JObj [(''name'', JStr bucket)]),
                          (''object'', JObj [(''key'', JStr key), (''size'', JNum n)])])]"

text \<open>The \<open>uploadTimestamp\<close> the metadata table holds for a record identifier.\<close>

definition stored_uploadTimestamp :: "world \<Rightarrow> string \<Rightarrow> json option" where
  "stored_uploadTimestamp w file_id =
     (case table w file_id of None \<Rightarrow> None | Some item \<Rightarrow> map_of item ''uploadTimestamp'')"

text \<open>
  A stored item as the report generator reads it back: each attribute the report reads,
  absent or of the type of the metadata schema. There is no reading of an item with an
  attribute of another type.
\<close>

definition str_attr :: "(string \<times> json) list \<Rightarrow> string \<Rightarrow> string option option" where
  "str_attr stored k =
     (case map_of stored k of
        None \<Rightarrow> Some None
      | Some (JStr s) \<Rightarrow> Some (Some s)
      | Some _ \<Rightarrow> None)"

definition num_attr :: "(string \<times> json) list \<Rightarrow> string \<Rightarrow> int option option" where
  "num_attr stored k =
     (case map_of stored k of
        None \<Rightarrow> Some None
      | Some (JNum n) \<Rightarrow> Some (Some n)
      | Some _ \<Rightarrow> None)"

definition as_item :: "(string \<times> json) list \<Rightarrow> item option" where
  "as_item stored =
     (case (str_attr stored ''fileName'', str_attr stored ''processingStatus'',
            num_attr stored ''uploadTimestamp'', num_attr stored ''fileSize'',
            num_attr stored ''recordCount'', str_attr stored ''errorMessage'') of
        (Some name, Some status, Some ts, Some fsize, Some rc, Some msg) \<Rightarrow>
          Some \<lparr> fileName = name, processingStatus = status, uploadTimestamp = ts,
                 fileSize = fsize, recordCount = rc, errorMessage = msg \<rparr>
      | _ \<Rightarrow> None)"

text \<open>A stored item carries \<open>recordCount\<close> only with the status COMPLETED.\<close>

definition count_only_when_completed :: "(string \<times> json) list \<Rightarrow> bool" where
  "count_only_when_completed stored =
     (map_of stored ''recordCount'' = None
      \<or> map_of stored ''processingStatus'' = Some (JStr ''COMPLETED''))"

text \<open>
  The states of a metadata table that only the worker writes: it starts empty, and every
  change is an invocation of the handler, on any batch and whatever the services do.
\<close>

inductive written_by_worker :: "world \<Rightarrow> bool" where
  empty_table: "table w = Map.empty \<Longrightarrow> written_by_worker w"
| invocation: "written_by_worker w \<Longrightarrow> written_by_worker (snd (handler rt event w))"


section \<open>Properties of the float model\<close>

lemma round_half_even_error: "\<bar>of_int (round_half_even x) - x\<bar> \<le> 1 / 2"
proof -
  have "of_int \<lfloor>x\<rfloor> \<le> x" "x < of_int \<lfloor>x\<rfloor> + 1" by linarith+
  then show ?thesis
    unfolding round_half_even_def Let_def abs_if
    by (simp split: if_splits) linarith
qed

lemma round_half_even_tie:
  assumes "\<bar>of_int (round_half_even x) - x\<bar> = 1 / 2"
  shows "even (round_half_even x)"
proof -
  define f where "f = \<lfloor>x\<rfloor>"
  define r where "r = x - of_int f"
  define k where "k = round_half_even x"
  have r: "0 \<le> r" "r < 1" unfolding r_def f_def by linarith+
  have k: "k = (if r < 1 / 2 then f else if 1 / 2 < r then f + 1 else if even f then f else f + 1)"
    by (simp add: k_def round_half_even_def Let_def f_def r_def)
  from assms have tie: "\<bar>of_int k - of_int f - r\<bar> = 1 / 2"
    by (simp add: k_def r_def)
  consider "r < 1 / 2" | "1 / 2 < r" | "r = 1 / 2" by linarith
  then have "even k"
  proof cases
    case 1
    then have "k = f" by (simp add: k)
    with tie r 1 show ?thesis by simp
  next
    case 2
    then have "k = f + 1" by (simp add: k)
    with tie r 2 show ?thesis by simp
  next
    case 3
    then show ?thesis by (simp add: k)
  qed
  then show ?thesis by (simp add: k_def)
qed

lemma pow2_pos: "0 < pow2 e"
  by (simp add: pow2_def)

lemma pow2_nat: "pow2 (int k) = 2 ^ k"
  by (simp add: pow2_def)

lemma pow2_neg: "pow2 (- int k) = 1 / 2 ^ k"
  by (cases k) (simp_all add: pow2_def nat_add_distrib)

lemma pow2_mono: "e \<le> e' \<Longrightarrow> pow2 e \<le> pow2 e'"
proof -
  assume le: "e \<le> e'"
  have eq: "pow2 x = 2 powi x" for x
    by (simp add: pow2_def power_int_def field_simps)
  show ?thesis unfolding eq using le by (intro power_int_increasing) simp_all
qed

lemma bitlen_le: "n < 2 ^ k \<Longrightarrow> bitlen n \<le> k"
proof (induction k arbitrary: n)
  case 0
  then show ?case by simp
next
  case (Suc k)
  show ?case
  proof (cases "n = 0")
    case True
    then show ?thesis by simp
  next
    case False
    from Suc.prems have "n div 2 < 2 ^ k" by simp
    from Suc.IH [OF this] False show ?thesis by (subst bitlen.simps) simp
  qed
qed

lemma exponent_less:
  assumes "0 < a" "a < 2 ^ k"
  shows "exponent a < int k"
proof (cases "1 \<le> a")
  case True
  from assms have "\<lfloor>a\<rfloor> < 2 ^ k"
    by (metis floor_less_iff of_int_numeral of_int_power)
  then have "nat \<lfloor>a\<rfloor> < 2 ^ k" using True
    by (metis nat_less_numeral_power_cancel_iff)
  from bitlen_le [OF this] True have "bitlen (nat \<lfloor>a\<rfloor>) \<le> k" by simp
  moreover from True have "0 < nat \<lfloor>a\<rfloor>" by simp
  then have "0 < bitlen (nat \<lfloor>a\<rfloor>)" by (subst bitlen.simps) simp
  ultimately show ?thesis using True by (simp add: exponent_def)
next
  case False
  with assms have "1 < 1 / a" by simp
  then have "2 \<le> \<lceil>1 / a\<rceil>" by linarith
  then have "0 < nat (\<lceil>1 / a\<rceil> - 1)" by simp
  then have "0 < bitlen (nat (\<lceil>1 / a\<rceil> - 1))" by (subst bitlen.simps) simp
  with False show ?thesis by (simp add: exponent_def)
qed

lemma nearest_double_error:
  assumes "\<bar>q\<bar> < 2 ^ k"
  shows "\<bar>nearest_double q - q\<bar> \<le> pow2 (int k - 54)"
proof (cases "q = 0")
  case True
  then show ?thesis using pow2_pos [of "int k - 54"] by (simp add: nearest_double_def)
next
  case False
  define a where "a = \<bar>q\<bar>"
  define u where "u = pow2 (max (exponent a - 52) (- 1074))"
  define m where "m = round_half_even (a / u)"
  have a: "0 < a" "a < 2 ^ k" using False assms by (simp_all add: a_def)
  have u: "0 < u" by (simp add: u_def pow2_pos)
  have "max (exponent a - 52) (- 1074) \<le> int k - 53"
    using exponent_less [OF a] by simp
  then have "u \<le> pow2 (int k - 53)" unfolding u_def by (rule pow2_mono)
  also have "\<dots> = 2 * pow2 (int k - 54)"
    by (simp add: pow2_def nat_diff_distrib power_diff field_simps)
  finally have u_le: "u / 2 \<le> pow2 (int k - 54)" by simp
  have "\<bar>of_int m - a / u\<bar> \<le> 1 / 2" unfolding m_def by (rule round_half_even_error)
  then have "\<bar>of_int m - a / u\<bar> * u \<le> 1 / 2 * u" using u by (intro mult_right_mono) simp_all
  moreover have "of_int m * u - a = (of_int m - a / u) * u" using u by (simp add: field_simps)
  then have "\<bar>of_int m * u - a\<bar> = \<bar>of_int m - a / u\<bar> * u" using u by (simp add: abs_mult)
  ultimately have "\<bar>of_int m * u - a\<bar> \<le> u / 2" by simp
  then have err: "\<bar>of_int m * u - a\<bar> \<le> pow2 (int k - 54)" using u_le by linarith
  have nd: "nearest_double q = (if q < 0 then - 1 else 1) * of_int m * u"
    using False by (simp add: nearest_double_def Let_def a_def u_def m_def)
  show ?thesis
  proof (cases "q < 0")
    case True
    then have "nearest_double q - q = - (of_int m * u - a)" by (simp add: nd a_def)
    then show ?thesis using err by simp
  next
    case False
    then have "nearest_double q - q = of_int m * u - a" by (simp add: nd a_def)
    then show ?thesis using err by simp
  qed
qed

section \<open>Properties of the report generator\<close>

subsection \<open>The rate and the size never leave the floats by themselves\<close>

lemma nearest_double_unit:
  assumes "0 \<le> q" "q \<le> 1"
  shows "\<bar>nearest_double q - q\<bar> \<le> 1 / 2 ^ 53"
proof -
  from assms have "\<bar>q\<bar> < 2 ^ 1" by simp
  from nearest_double_error [OF this] show ?thesis
    by (simp add: pow2_def)
qed

lemma int_truediv_returns:
  assumes "\<bar>a\<bar> < 2 ^ 1000"
  shows "\<not> isl (int_truediv a (1024 * 1024))"
proof -
  define q :: rat where "q = of_int a / of_int (1024 * 1024)"
  from assms have "(of_int \<bar>a\<bar> :: rat) < of_int (2 ^ 1000)"
    by (simp only: of_int_less_iff)
  then have a: "\<bar>of_int a :: rat\<bar> < 2 ^ 1000" by simp
  have "\<bar>q\<bar> \<le> \<bar>of_int a\<bar>"
    by (simp add: q_def abs_if)
  with a have q: "\<bar>q\<bar> < 2 ^ 1000" by linarith
  from nearest_double_error [OF q] have "\<bar>nearest_double q - q\<bar> \<le> 2 ^ 946"
    by (simp add: pow2_def)
  with q have "\<bar>nearest_double q\<bar> < 2 ^ 1000 + 2 ^ 946" by linarith
  also have "(2::rat) ^ 1000 + 2 ^ 946 \<le> pow2 1024" by (simp add: pow2_def)
  finally have "\<not> overflows (nearest_double q)" by (simp add: overflows_def)
  then show ?thesis
    by (simp add: int_truediv_def Let_def q_def)
qed

lemma success_rate_of_returns:
  assumes "c \<le> t"
  shows "success_rate_of c t =
           Inr (if 0 < t then float_mul (nearest_double (of_nat c / of_nat t)) 100 else 0)"
proof (cases "0 < t")
  case False
  then show ?thesis by (simp add: success_rate_of_def)
next
  case True
  define q :: rat where "q = of_nat c / of_nat t"
  have q: "0 \<le> q" "q \<le> 1" using assms True by (simp_all add: q_def)
  from nearest_double_unit [OF q] q have "\<bar>nearest_double q\<bar> \<le> 2"
    by (simp add: abs_if split: if_splits)
  moreover have "(2::rat) < pow2 1024" by (simp add: pow2_def)
  ultimately have "\<not> overflows (nearest_double q)" by (simp add: overflows_def)
  then show ?thesis using True
    by (simp add: success_rate_of_def int_truediv_def Let_def q_def)
qed

lemma success_rate_accuracy:
  assumes "c \<le> t" "0 < t"
  shows "\<bar>round2 (float_mul (nearest_double (of_nat c / of_nat t)) 100) - 100 * of_nat c / of_nat t\<bar>
           \<le> 1 / 200 + 1 / 2 ^ 45"
proof -
  define q :: rat where "q = of_nat c / of_nat t"
  define x1 where "x1 = nearest_double q"
  define x2 where "x2 = nearest_double (x1 * 100)"
  define r where "r = round_half_even (x2 * 100)"
  define x3 where "x3 = nearest_double (of_int r / 100)"
  have q: "0 \<le> q" "q \<le> 1" using assms by (simp_all add: q_def)
  have e1: "\<bar>x1 - q\<bar> \<le> 1 / 2 ^ 53" unfolding x1_def by (rule nearest_double_unit [OF q])
  then have b1: "\<bar>x1 * 100\<bar> < 2 ^ 7" using q by (simp add: abs_if split: if_splits)
  from nearest_double_error [OF b1] have e2: "\<bar>x2 - x1 * 100\<bar> \<le> 1 / 2 ^ 47"
    by (simp add: x2_def pow2_def)
  have "\<bar>of_int r - x2 * 100\<bar> \<le> 1 / 2" unfolding r_def by (rule round_half_even_error)
  then have e3: "\<bar>of_int r / 100 - x2\<bar> \<le> 1 / 200" by (simp add: abs_if split: if_splits)
  have b3: "\<bar>of_int r / 100 :: rat\<bar> < 2 ^ 7"
    using e1 e2 e3 q by (simp add: abs_if split: if_splits)
  from nearest_double_error [OF b3] have e4: "\<bar>x3 - of_int r / 100\<bar> \<le> 1 / 2 ^ 47"
    by (simp add: x3_def pow2_def)
  have "\<bar>x3 - 100 * q\<bar> \<le> 1 / 200 + 1 / 2 ^ 45"
    using e1 e2 e3 e4 by (simp add: abs_if split: if_splits)
  then show ?thesis
    by (simp add: x3_def r_def x2_def x1_def q_def round2_def float_mul_def)
qed

text \<open>
  The steps of the rate: the float product \<open>p\<close> is within \<open>2 ^ -45\<close> of the exact percentage;
  \<open>round(p, 2)\<close> takes the integer \<open>k\<close> nearest to \<open>100 * p\<close>, the even one at a tie, and
  returns the double nearest to the decimal \<open>k / 100\<close>.
\<close>

lemma success_rate_steps:
  assumes "c \<le> t" "0 < t"
  defines "p \<equiv> float_mul (nearest_double (of_nat c / of_nat t)) 100"
  defines "k \<equiv> round_half_even (p * 100)"
  shows "\<bar>p - 100 * of_nat c / of_nat t\<bar> \<le> 1 / 2 ^ 45"
    and "\<bar>of_int k - 100 * p\<bar> \<le> 1 / 2"
    and "\<bar>of_int k - 100 * p\<bar> = 1 / 2 \<Longrightarrow> even k"
    and "round2 p = nearest_double (of_int k / 100)"
    and "\<bar>round2 p - of_int k / 100\<bar> \<le> 1 / 2 ^ 47"
proof -
  define q :: rat where "q = of_nat c / of_nat t"
  define x1 where "x1 = nearest_double q"
  have p: "p = nearest_double (x1 * 100)"
    by (simp add: p_def float_mul_def x1_def q_def)
  have q: "0 \<le> q" "q \<le> 1" using assms(1,2) by (simp_all add: q_def)
  have e1: "\<bar>x1 - q\<bar> \<le> 1 / 2 ^ 53" unfolding x1_def by (rule nearest_double_unit [OF q])
  then have b1: "\<bar>x1 * 100\<bar> < 2 ^ 7" using q by (simp add: abs_if split: if_splits)
  from nearest_double_error [OF b1] have e2: "\<bar>p - x1 * 100\<bar> \<le> 1 / 2 ^ 47"
    by (simp add: p pow2_def)
  from e1 e2 have "\<bar>p - 100 * q\<bar> \<le> 1 / 2 ^ 45"
    by (simp add: abs_if split: if_splits)
  then show "\<bar>p - 100 * of_nat c / of_nat t\<bar> \<le> 1 / 2 ^ 45"
    by (simp add: q_def)
  have e3: "\<bar>of_int k - p * 100\<bar> \<le> 1 / 2" unfolding k_def by (rule round_half_even_error)
  then show "\<bar>of_int k - 100 * p\<bar> \<le> 1 / 2" by (simp add: mult.commute)
  show "even k" if "\<bar>of_int k - 100 * p\<bar> = 1 / 2"
    using that round_half_even_tie [of "p * 100"] by (simp add: k_def mult.commute)
  show r: "round2 p = nearest_double (of_int k / 100)"
    by (simp add: round2_def k_def)
  from e3 have "\<bar>of_int k / 100 - p\<bar> \<le> 1 / 200" by (simp add: abs_if split: if_splits)
  with e1 e2 q have b3: "\<bar>of_int k / 100 :: rat\<bar> < 2 ^ 7"
    by (simp add: abs_if split: if_splits)
  from nearest_double_error [OF b3] show "\<bar>round2 p - of_int k / 100\<bar> \<le> 1 / 2 ^ 47"
    by (simp add: r pow2_def)
qed

subsection \<open>The two loops over the records\<close>

lemma hourly_loop_returns:
  "\<forall>i\<in>set data. \<not> isl (fromtimestamp lib (int_or_0 (uploadTimestamp i)))
   \<Longrightarrow> \<exists>hs. hourly_loop lib data acc = Inr hs"
proof (induction data arbitrary: acc)
  case Nil
  show ?case by simp
next
  case (Cons i data)
  from Cons.prems obtain dt where dt: "fromtimestamp lib (int_or_0 (uploadTimestamp i)) = Inr dt"
    by (cases "fromtimestamp lib (int_or_0 (uploadTimestamp i))") auto
  from Cons.prems have "\<forall>j\<in>set data. \<not> isl (fromtimestamp lib (int_or_0 (uploadTimestamp j)))"
    by simp
  from Cons.IH [OF this] show ?case by (simp add: dt)
qed

lemma error_entry_of_returns:
  "\<not> isl (fromtimestamp lib (int_or_0 (uploadTimestamp i))) \<Longrightarrow> \<exists>entry. error_entry_of lib i = Inr entry"
  by (cases "fromtimestamp lib (int_or_0 (uploadTimestamp i))") (auto simp: error_entry_of_def)

lemma errors_loop_returns:
  "\<forall>i\<in>set data. \<not> isl (fromtimestamp lib (int_or_0 (uploadTimestamp i)))
   \<Longrightarrow> \<exists>es. errors_loop lib data acc = Inr es"
proof (induction data arbitrary: acc)
  case Nil
  show ?case by simp
next
  case (Cons i data)
  from Cons.prems obtain entry where entry: "error_entry_of lib i = Inr entry"
    using error_entry_of_returns [of lib i] by auto
  from Cons.prems have "\<forall>j\<in>set data. \<not> isl (fromtimestamp lib (int_or_0 (uploadTimestamp j)))"
    by simp
  from Cons.IH [OF this] show ?case by (simp add: entry)
qed

lemma errors_loop_entries:
  "errors_loop lib data acc = Inr es
   \<Longrightarrow> map Inr es = map Inr acc @ map (error_entry_of lib) (filter failed_with_message data)"
proof (induction data arbitrary: acc)
  case Nil
  then show ?case by simp
next
  case (Cons i data)
  show ?case
  proof (cases "failed_with_message i")
    case False
    with Cons show ?thesis by simp
  next
    case True
    show ?thesis
    proof (cases "error_entry_of lib i")
      case (Inl e)
      with True Cons.prems show ?thesis by simp
    next
      case (Inr entry)
      with True Cons.prems have "errors_loop lib data (acc @ [entry]) = Inr es" by simp
      from Cons.IH [OF this] show ?thesis using True Inr by simp
    qed
  qed
qed

subsection \<open>Python's descending sort\<close>

lemma mset_sorted_reverse: "mset (sorted_reverse key xs) = mset xs"
  by (simp add: sorted_reverse_def)

lemma sorted_reverse_descending:
  "sorted_wrt (\<lambda>a b. key b \<le> key a) (sorted_reverse key xs)"
proof -
  have "sorted (map key (sort_key key (rev xs)))" by simp
  then have "sorted_wrt (\<lambda>a b. key a \<le> key b) (sort_key key (rev xs))"
    by (simp add: sorted_map)
  then show ?thesis by (simp add: sorted_reverse_def sorted_wrt_rev)
qed

lemma sorted_reverse_stable:
  "filter (\<lambda>x. key x = k) (sorted_reverse key xs) = filter (\<lambda>x. key x = k) xs"
proof -
  have "filter (\<lambda>x. key x = k) (sorted_reverse key xs)
      = rev (filter (\<lambda>x. key x = k) (sort_key key (rev xs)))"
    by (simp add: sorted_reverse_def rev_filter)
  also have "\<dots> = rev (filter (\<lambda>x. key x = k) (rev xs))"
    by (simp only: sort_key_stable)
  also have "\<dots> = filter (\<lambda>x. key x = k) xs"
    by (simp add: rev_filter)
  finally show ?thesis .
qed

subsection \<open>The report of a window whose timestamps and size are in range\<close>

lemma generate_report_returns:
  assumes ts: "\<forall>i\<in>set data. \<not> isl (fromtimestamp lib (int_or_0 (uploadTimestamp i)))"
      and sz: "\<not> isl (int_truediv (total_size_bytes_of data) (1024 * 1024))"
  shows "\<exists>mb hs es.
           int_truediv (total_size_bytes_of data) (1024 * 1024) = Inr mb \<and>
           hourly_loop lib data [] = Inr hs \<and>
           errors_loop lib data [] = Inr es \<and>
           generate_report lib env now data start_time end_time =
             Inr \<lparr> report_metadata =
                     \<lparr> generated_at = isoformat lib now,
                       report_period_start = isoformat lib start_time,
                       report_period_end = isoformat lib end_time,
                       environment = env \<rparr>,
                   summary =
                     \<lparr> total_files_processed = length data,
                       successful_files = count_status ''COMPLETED'' data,
                       failed_files = count_status ''FAILED'' data,
                       in_progress_files = count_status ''PROCESSING'' data,
                       success_rate_percent =
                         round2 (if 0 < length data
                                 then float_mul (nearest_double
                                        (of_nat (count_status ''COMPLETED'' data) / of_nat (length data))) 100
                                 else 0),
                       total_records_processed = total_records_of data,
                       total_data_size_mb = round2 mb \<rparr>,
                   hourly_breakdown = hs,
                   errors = take 10 es,
                   top_files = take 10 (sorted_reverse recordCount_t (top_candidates data)) \<rparr>"
proof -
  from sz obtain mb where mb: "int_truediv (total_size_bytes_of data) (1024 * 1024) = Inr mb"
    by (cases "int_truediv (total_size_bytes_of data) (1024 * 1024)") auto
  from hourly_loop_returns [OF ts] obtain hs where hs: "hourly_loop lib data [] = Inr hs"
    by blast
  from errors_loop_returns [OF ts] obtain es where es: "errors_loop lib data [] = Inr es"
    by blast
  have "count_status ''COMPLETED'' data \<le> length data"
    by (simp add: count_status_def)
  from success_rate_of_returns [OF this]
  have rate: "success_rate_of (count_status ''COMPLETED'' data) (length data) =
      Inr (if 0 < length data
           then float_mul (nearest_double
                  (of_nat (count_status ''COMPLETED'' data) / of_nat (length data))) 100
           else 0)" .
  have "generate_report lib env now data start_time end_time = Inr \<lparr> report_metadata =
                     \<lparr> generated_at = isoformat lib now,
                       report_period_start = isoformat lib start_time,
                       report_period_end = isoformat lib end_time,
                       environment = env \<rparr>,
                   summary =
                     \<lparr> total_files_processed = length data,
                       successful_files = count_status ''COMPLETED'' data,
                       failed_files = count_status ''FAILED'' data,
                       in_progress_files = count_status ''PROCESSING'' data,
                       success_rate_percent =
                         round2 (if 0 < length data
                                 then float_mul (nearest_double
                                        (of_nat (count_status ''COMPLETED'' data) / of_nat (length data))) 100
                                 else 0),
                       total_records_processed = total_records_of data,
                       total_data_size_mb = round2 mb \<rparr>,
                   hourly_breakdown = hs,
                   errors = take 10 es,
                   top_files = take 10 (sorted_reverse recordCount_t (top_candidates data)) \<rparr>"
    unfolding generate_report_def Let_def by (simp only: mb rate hs es sum.case)
  with mb hs es show ?thesis by blast
qed

subsection \<open>Claims about the report\<close>

lemma total_records_of_present:
  "total_records_of data =
     sum_list (map (\<lambda>i. int_or_0 (recordCount i)) (filter (\<lambda>i. recordCount i \<noteq> None) data))"
  unfolding total_records_of_def
  by (induction data) (auto simp: has_recordCount_def int_or_0_def split: option.splits)

lemma spec_total_records_when_completed:
  "\<forall>i\<in>set data. recordCount i \<noteq> None \<longrightarrow> processingStatus i = Some ''COMPLETED''
   \<Longrightarrow> spec_total_records data =
       sum_list (map (\<lambda>i. int_or_0 (recordCount i)) (filter (\<lambda>i. recordCount i \<noteq> None) data))"
  unfolding spec_total_records_def
  by (induction data) auto

text \<open>
  C5, as the specification states it: the top-files list ranks exactly the records that
  have a \<open>recordCount\<close> field. The code tests the truth value of the field, so a record
  whose \<open>recordCount\<close> is present and 0 (a file with a header and no data row) is left
  out: the window below holds one record with the field, and its top-files list is empty.
\<close>

theorem top_files_omits_zero_count:
  "recordCount (record_of ''empty.csv'' ''COMPLETED'' 0 (Some 0) None) = Some 0
   \<and> map_sum id top_files
       (generate_report utc ''prod'' 0 [record_of ''empty.csv'' ''COMPLETED'' 0 (Some 0) None] 0 0)
     = Inr []"
  by code_simp

text \<open>
  C5, amended: the top-files list is the first 10 entries of the ranking by
  \<open>recordCount\<close> descending of exactly the records whose \<open>recordCount\<close> is present and not
  zero. The ranking is a full sort: it holds each such record once, it is descending, and
  records with equal counts keep their scan order. Records with no \<open>recordCount\<close> (or a
  zero one) never appear, and the list has at most 10 entries.
\<close>

theorem top_files_ranking:
  assumes "\<forall>i\<in>set data. \<not> isl (fromtimestamp lib (int_or_0 (uploadTimestamp i)))"
      and "\<not> isl (int_truediv (total_size_bytes_of data) (1024 * 1024))"
  shows "\<exists>r ranked.
           generate_report lib env now data start_time end_time = Inr r \<and>
           top_files r = take 10 ranked \<and>
           length (top_files r) \<le> 10 \<and>
           mset ranked =
             mset (map (\<lambda>i. \<lparr> fileName_t = fileName i, recordCount_t = int_or_0 (recordCount i) \<rparr>)
                    (filter (\<lambda>i. recordCount i \<noteq> None \<and> recordCount i \<noteq> Some 0) data)) \<and>
           sorted_wrt (\<lambda>a b. recordCount_t b \<le> recordCount_t a) ranked \<and>
           (\<forall>k. filter (\<lambda>x. recordCount_t x = k) ranked =
                filter (\<lambda>x. recordCount_t x = k)
                  (map (\<lambda>i. \<lparr> fileName_t = fileName i, recordCount_t = int_or_0 (recordCount i) \<rparr>)
                    (filter (\<lambda>i. recordCount i \<noteq> None \<and> recordCount i \<noteq> Some 0) data)))"
proof -
  define ranked where "ranked = sorted_reverse recordCount_t (top_candidates data)"
  have cands: "top_candidates data =
      map (\<lambda>i. \<lparr> fileName_t = fileName i, recordCount_t = int_or_0 (recordCount i) \<rparr>)
        (filter (\<lambda>i. recordCount i \<noteq> None \<and> recordCount i \<noteq> Some 0) data)"
  proof -
    have "has_recordCount = (\<lambda>i. recordCount i \<noteq> None \<and> recordCount i \<noteq> Some 0)"
      by (auto simp: has_recordCount_def fun_eq_iff split: option.splits)
    then show ?thesis by (simp add: top_candidates_def)
  qed
  from generate_report_returns [OF assms, of env now start_time end_time]
  obtain r where r: "generate_report lib env now data start_time end_time = Inr r"
    and t: "top_files r = take 10 ranked"
    unfolding ranked_def by force
  have "length (top_files r) \<le> 10" by (simp add: t)
  moreover have "mset ranked = mset (top_candidates data)"
    unfolding ranked_def by (rule mset_sorted_reverse)
  moreover have "sorted_wrt (\<lambda>a b. recordCount_t b \<le> recordCount_t a) ranked"
    unfolding ranked_def by (rule sorted_reverse_descending)
  moreover have "\<forall>k. filter (\<lambda>x. recordCount_t x = k) ranked =
      filter (\<lambda>x. recordCount_t x = k) (top_candidates data)"
    unfolding ranked_def by (simp add: sorted_reverse_stable)
  ultimately show ?thesis using r t unfolding cands by blast
qed

theorem top_files_ranking_witness:
  "\<exists>r. generate_report utc ''prod'' 86400
          [record_of ''a.csv'' ''COMPLETED'' 0 (Some 7) None,
           record_of ''b.csv'' ''FAILED'' 60 None (Some ''boom''),
           record_of ''c.csv'' ''COMPLETED'' 3600 (Some 9) None,
           record_of ''d.csv'' ''COMPLETED'' 7200 (Some 7) None] 0 86400 = Inr r \<and>
        top_files r = [\<lparr> fileName_t = Some ''c.csv'', recordCount_t = 9 \<rparr>,
                       \<lparr> fileName_t = Some ''a.csv'', recordCount_t = 7 \<rparr>,
                       \<lparr> fileName_t = Some ''d.csv'', recordCount_t = 7 \<rparr>]"
proof -
  let ?d = "[record_of ''a.csv'' ''COMPLETED'' 0 (Some 7) None,
             record_of ''b.csv'' ''FAILED'' 60 None (Some ''boom''),
             record_of ''c.csv'' ''COMPLETED'' 3600 (Some 9) None,
             record_of ''d.csv'' ''COMPLETED'' 7200 (Some 7) None]"
  let ?c = "[\<lparr> fileName_t = Some ''a.csv'', recordCount_t = 7 \<rparr>,
             \<lparr> fileName_t = Some ''c.csv'', recordCount_t = 9 \<rparr>,
             \<lparr> fileName_t = Some ''d.csv'', recordCount_t = 7 \<rparr>]"
  have h1: "\<forall>i\<in>set ?d. \<not> isl (fromtimestamp utc (int_or_0 (uploadTimestamp i)))"
    by (simp add: utc_def utc_fromtimestamp_def int_or_0_def)
  have h2: "\<not> isl (int_truediv (total_size_bytes_of ?d) (1024 * 1024))"
    by code_simp
  from top_files_ranking [OF h1 h2, of "''prod''" 86400 0 86400]
  obtain r ranked where r: "generate_report utc ''prod'' 86400 ?d 0 86400 = Inr r"
    and t: "top_files r = take 10 ranked"
    and m: "mset ranked = mset ?c"
    and s: "sorted_wrt (\<lambda>a b. recordCount_t b \<le> recordCount_t a) ranked"
    and f: "\<forall>k. filter (\<lambda>x. recordCount_t x = k) ranked = filter (\<lambda>x. recordCount_t x = k) ?c"
    by (auto simp: int_or_0_def)
  from f have f7: "filter (\<lambda>x. recordCount_t x = 7) ranked =
      [\<lparr> fileName_t = Some ''a.csv'', recordCount_t = 7 \<rparr>,
       \<lparr> fileName_t = Some ''d.csv'', recordCount_t = 7 \<rparr>]"
    by simp
  from f have f9: "filter (\<lambda>x. recordCount_t x = 9) ranked =
      [\<lparr> fileName_t = Some ''c.csv'', recordCount_t = 9 \<rparr>]"
    by simp
  from m have len: "length ranked = 3"
    by (metis length_Cons list.size(3) numeral_3_eq_3 size_mset)
  from m have set: "set ranked = set ?c" by (metis set_mset_mset)
  have "ranked = [\<lparr> fileName_t = Some ''c.csv'', recordCount_t = 9 \<rparr>,
                  \<lparr> fileName_t = Some ''a.csv'', recordCount_t = 7 \<rparr>,
                  \<lparr> fileName_t = Some ''d.csv'', recordCount_t = 7 \<rparr>]"
  proof -
    from len obtain x y z where xyz: "ranked = [x, y, z]"
      by (metis (no_types, opaque_lifting) length_0_conv length_Suc_conv numeral_3_eq_3)
    from set xyz have mem: "x \<in> set ?c" "y \<in> set ?c" "z \<in> set ?c" by auto
    from s xyz have ord: "recordCount_t y \<le> recordCount_t x" "recordCount_t z \<le> recordCount_t x"
      "recordCount_t z \<le> recordCount_t y" by auto
    from f7 f9 xyz mem ord show ?thesis
      by (auto split: if_splits)
  qed
  with r t show ?thesis by simp
qed

text \<open>
  C6: the success rate of a report is 0 when the window is empty (no division takes
  place), and otherwise \<open>round(completed / total * 100, 2)\<close> in the float arithmetic of the
  code. The float product \<open>p\<close> is within \<open>2 ^ -45\<close> of the exact percentage; the rate is the
  double nearest to the two-decimal number \<open>k / 100\<close>, where \<open>k\<close> is the integer nearest to
  \<open>100 * p\<close> (the even one at a tie), and it lies within \<open>2 ^ -47\<close> of that decimal. So the
  rate is within 0.005 (and the float error) of the exact percentage; 3 COMPLETED records
  in a window of 5 give exactly 60, and 1 in a window of 3 gives the double of 33.33, not
  the product 33.33333333333333.
\<close>

theorem success_rate_percent_value:
  assumes "\<forall>i\<in>set data. \<not> isl (fromtimestamp lib (int_or_0 (uploadTimestamp i)))"
      and "\<not> isl (int_truediv (total_size_bytes_of data) (1024 * 1024))"
  shows "\<exists>r. generate_report lib env now data start_time end_time = Inr r \<and>
           (data = [] \<longrightarrow> success_rate_percent (summary r) = 0) \<and>
           (data \<noteq> [] \<longrightarrow>
              success_rate_percent (summary r) =
                round2 (float_mul
                  (nearest_double
                     (of_nat (length (filter (\<lambda>i. processingStatus i = Some ''COMPLETED'') data))
                        / of_nat (length data))) 100) \<and>
              \<bar>success_rate_percent (summary r)
                 - 100 * of_nat (length (filter (\<lambda>i. processingStatus i = Some ''COMPLETED'') data))
                     / of_nat (length data)\<bar> \<le> 1 / 200 + 1 / 2 ^ 45 \<and>
              (\<exists>p k.
                 p = float_mul
                       (nearest_double
                          (of_nat (length (filter (\<lambda>i. processingStatus i = Some ''COMPLETED'') data))
                             / of_nat (length data))) 100 \<and>
                 \<bar>p - 100 * of_nat (length (filter (\<lambda>i. processingStatus i = Some ''COMPLETED'') data))
                        / of_nat (length data)\<bar> \<le> 1 / 2 ^ 45 \<and>
                 \<bar>of_int k - 100 * p\<bar> \<le> 1 / 2 \<and>
                 (\<bar>of_int k - 100 * p\<bar> = 1 / 2 \<longrightarrow> even k) \<and>
                 success_rate_percent (summary r) = nearest_double (of_int k / 100) \<and>
                 \<bar>success_rate_percent (summary r) - of_int k / 100\<bar> \<le> 1 / 2 ^ 47)) \<and>
           (length data = 5 \<and> length (filter (\<lambda>i. processingStatus i = Some ''COMPLETED'') data) = 3
              \<longrightarrow> success_rate_percent (summary r) = 60) \<and>
           (length data = 3 \<and> length (filter (\<lambda>i. processingStatus i = Some ''COMPLETED'') data) = 1
              \<longrightarrow> success_rate_percent (summary r) = nearest_double (3333 / 100)
                \<and> success_rate_percent (summary r)
                    \<noteq> float_mul (nearest_double (of_nat 1 / of_nat 3)) 100)"
proof -
  define c where "c = length (filter (\<lambda>i. processingStatus i = Some ''COMPLETED'') data)"
  define p where "p = float_mul (nearest_double (of_nat c / of_nat (length data))) 100"
  define k where "k = round_half_even (p * 100)"
  have c: "count_status ''COMPLETED'' data = c"
    by (simp add: c_def count_status_def status_is_def [abs_def])
  have le: "c \<le> length data" by (simp add: c_def)
  from generate_report_returns [OF assms, of env now start_time end_time]
  obtain r where r: "generate_report lib env now data start_time end_time = Inr r"
    and rate: "success_rate_percent (summary r) =
      round2 (if 0 < length data then float_mul (nearest_double (of_nat c / of_nat (length data))) 100 else 0)"
    unfolding c by force
  have empty: "data = [] \<longrightarrow> success_rate_percent (summary r) = 0"
    by (simp add: rate round2_def round_half_even_def nearest_double_def)
  have val: "data \<noteq> [] \<longrightarrow> success_rate_percent (summary r) = round2 p"
    by (simp add: rate p_def)
  have near: "data \<noteq> [] \<longrightarrow>
      \<bar>success_rate_percent (summary r) - 100 * of_nat c / of_nat (length data)\<bar> \<le> 1 / 200 + 1 / 2 ^ 45"
    using success_rate_accuracy [OF le] by (simp add: rate)
  have steps: "data \<noteq> [] \<longrightarrow>
      \<bar>p - 100 * of_nat c / of_nat (length data)\<bar> \<le> 1 / 2 ^ 45 \<and>
      \<bar>of_int k - 100 * p\<bar> \<le> 1 / 2 \<and>
      (\<bar>of_int k - 100 * p\<bar> = 1 / 2 \<longrightarrow> even k) \<and>
      success_rate_percent (summary r) = nearest_double (of_int k / 100) \<and>
      \<bar>success_rate_percent (summary r) - of_int k / 100\<bar> \<le> 1 / 2 ^ 47"
  proof
    assume "data \<noteq> []"
    then have pos: "0 < length data" by simp
    from success_rate_steps [OF le pos] val \<open>data \<noteq> []\<close>
    show "\<bar>p - 100 * of_nat c / of_nat (length data)\<bar> \<le> 1 / 2 ^ 45 \<and>
      \<bar>of_int k - 100 * p\<bar> \<le> 1 / 2 \<and>
      (\<bar>of_int k - 100 * p\<bar> = 1 / 2 \<longrightarrow> even k) \<and>
      success_rate_percent (summary r) = nearest_double (of_int k / 100) \<and>
      \<bar>success_rate_percent (summary r) - of_int k / 100\<bar> \<le> 1 / 2 ^ 47"
      unfolding p_def k_def by simp
  qed
  have sixty: "round2 (float_mul (nearest_double (of_nat 3 / of_nat 5)) 100) = 60"
    by code_simp
  have example: "length data = 5 \<and> c = 3 \<longrightarrow> success_rate_percent (summary r) = 60"
    using sixty by (auto simp: rate)
  have third: "round2 (float_mul (nearest_double (of_nat 1 / of_nat 3)) 100) = nearest_double (3333 / 100)
      \<and> nearest_double (3333 / 100) \<noteq> float_mul (nearest_double (of_nat 1 / of_nat 3)) 100"
    by code_simp
  have example3: "length data = 3 \<and> c = 1 \<longrightarrow>
      success_rate_percent (summary r) = nearest_double (3333 / 100)
      \<and> success_rate_percent (summary r) \<noteq> float_mul (nearest_double (of_nat 1 / of_nat 3)) 100"
    using third by (auto simp: rate)
  from r empty val near steps example example3 show ?thesis
    unfolding c_def p_def k_def by blast
qed

theorem success_rate_percent_value_witness:
  "(\<exists>r. generate_report utc ''prod'' 86400
          [record_of ''a.csv'' ''COMPLETED'' 0 (Some 7) None,
           record_of ''b.csv'' ''FAILED'' 60 None (Some ''boom''),
           record_of ''c.csv'' ''COMPLETED'' 3600 (Some 9) None,
           record_of ''d.csv'' ''FAILED'' 3660 None None,
           record_of ''e.csv'' ''COMPLETED'' 7200 (Some 7) None] 0 86400 = Inr r \<and>
        success_rate_percent (summary r) = 60) \<and>
   (\<exists>r. generate_report utc ''prod'' 86400 [] 0 86400 = Inr r \<and>
        success_rate_percent (summary r) = 0) \<and>
   (\<exists>r. generate_report utc ''prod'' 86400
          [record_of ''a.csv'' ''COMPLETED'' 0 (Some 7) None,
           record_of ''b.csv'' ''FAILED'' 60 None (Some ''boom''),
           record_of ''c.csv'' ''PROCESSING'' 3600 None None] 0 86400 = Inr r \<and>
        success_rate_percent (summary r) = 2345390243441541 / 70368744177664 \<and>
        \<bar>success_rate_percent (summary r) - 3333 / 100\<bar> \<le> 1 / 2 ^ 47 \<and>
        success_rate_percent (summary r) \<noteq> float_mul (nearest_double (of_nat 1 / of_nat 3)) 100)"
proof -
  let ?d = "[record_of ''a.csv'' ''COMPLETED'' 0 (Some 7) None,
             record_of ''b.csv'' ''FAILED'' 60 None (Some ''boom''),
             record_of ''c.csv'' ''COMPLETED'' 3600 (Some 9) None,
             record_of ''d.csv'' ''FAILED'' 3660 None None,
             record_of ''e.csv'' ''COMPLETED'' 7200 (Some 7) None]"
  let ?t = "[record_of ''a.csv'' ''COMPLETED'' 0 (Some 7) None,
             record_of ''b.csv'' ''FAILED'' 60 None (Some ''boom''),
             record_of ''c.csv'' ''PROCESSING'' 3600 None None]"
  have h1: "\<forall>i\<in>set ?d. \<not> isl (fromtimestamp utc (int_or_0 (uploadTimestamp i)))"
    by (simp add: utc_def utc_fromtimestamp_def int_or_0_def)
  have h2: "\<not> isl (int_truediv (total_size_bytes_of ?d) (1024 * 1024))"
    by code_simp
  have e1: "\<forall>i\<in>set ([]::item list). \<not> isl (fromtimestamp utc (int_or_0 (uploadTimestamp i)))"
    by simp
  have e2: "\<not> isl (int_truediv (total_size_bytes_of []) (1024 * 1024))"
    by code_simp
  have t1: "\<forall>i\<in>set ?t. \<not> isl (fromtimestamp utc (int_or_0 (uploadTimestamp i)))"
    by (simp add: utc_def utc_fromtimestamp_def int_or_0_def)
  have t2: "\<not> isl (int_truediv (total_size_bytes_of ?t) (1024 * 1024))"
    by code_simp
  have v: "nearest_double (3333 / 100) = 2345390243441541 / 70368744177664"
    by code_simp
  have b: "\<bar>2345390243441541 / 70368744177664 - 3333 / 100 :: rat\<bar> \<le> 1 / 2 ^ 47"
    by simp
  from success_rate_percent_value [OF h1 h2, of "''prod''" 86400 0 86400]
  have five: "\<exists>r. generate_report utc ''prod'' 86400 ?d 0 86400 = Inr r \<and>
      success_rate_percent (summary r) = 60"
    by auto
  from success_rate_percent_value [OF e1 e2, of "''prod''" 86400 0 86400]
  have none: "\<exists>r. generate_report utc ''prod'' 86400 [] 0 86400 = Inr r \<and>
      success_rate_percent (summary r) = 0"
    by auto
  from success_rate_percent_value [OF t1 t2, of "''prod''" 86400 0 86400]
  obtain r where "generate_report utc ''prod'' 86400 ?t 0 86400 = Inr r"
    and "success_rate_percent (summary r) = nearest_double (3333 / 100)"
    and "success_rate_percent (summary r) \<noteq> float_mul (nearest_double (of_nat 1 / of_nat 3)) 100"
    by auto
  with v b have three: "\<exists>r. generate_report utc ''prod'' 86400 ?t 0 86400 = Inr r \<and>
      success_rate_percent (summary r) = 2345390243441541 / 70368744177664 \<and>
      \<bar>success_rate_percent (summary r) - 3333 / 100\<bar> \<le> 1 / 2 ^ 47 \<and>
      success_rate_percent (summary r) \<noteq> float_mul (nearest_double (of_nat 1 / of_nat 3)) 100"
    by auto
  from five none three show ?thesis by blast
qed

text \<open>
  C8: the error list of a report holds one entry (name, message, timestamp) for each
  FAILED record whose error message is present and not empty, in scan order, cut to the
  first 10 of them; nothing is sorted by time, and a FAILED record with no message or an
  empty one has no entry.
\<close>

theorem errors_first_ten_in_scan_order:
  assumes "\<forall>i\<in>set data. \<not> isl (fromtimestamp lib (int_or_0 (uploadTimestamp i)))"
      and "\<not> isl (int_truediv (total_size_bytes_of data) (1024 * 1024))"
  shows "\<exists>r. generate_report lib env now data start_time end_time = Inr r \<and>
           map Inr (errors r) =
             take 10 (map (error_entry_of lib)
               (filter (\<lambda>i. processingStatus i = Some ''FAILED''
                             \<and> errorMessage i \<noteq> None \<and> errorMessage i \<noteq> Some []) data))"
proof -
  have p: "failed_with_message =
      (\<lambda>i. processingStatus i = Some ''FAILED'' \<and> errorMessage i \<noteq> None \<and> errorMessage i \<noteq> Some [])"
    by (auto simp: failed_with_message_def status_is_def has_errorMessage_def fun_eq_iff
          split: option.splits)
  from generate_report_returns [OF assms, of env now start_time end_time]
  obtain r es where r: "generate_report lib env now data start_time end_time = Inr r"
    and es: "errors_loop lib data [] = Inr es"
    and e: "errors r = take 10 es"
    by force
  from errors_loop_entries [OF es]
  have "map Inr es = map (error_entry_of lib) (filter failed_with_message data)" by simp
  then have "take 10 (map Inr es) = take 10 (map (error_entry_of lib) (filter failed_with_message data))"
    by simp
  then have "map Inr (errors r) = take 10 (map (error_entry_of lib) (filter failed_with_message data))"
    by (simp add: e take_map)
  with r show ?thesis unfolding p by blast
qed

theorem errors_first_ten_in_scan_order_witness:
  "\<exists>r. generate_report utc ''prod'' 86400
          [record_of ''late.csv'' ''FAILED'' 7200 None (Some ''no such key''),
           record_of ''a.csv'' ''COMPLETED'' 0 (Some 7) None,
           record_of ''silent.csv'' ''FAILED'' 60 None None,
           record_of ''blank.csv'' ''FAILED'' 120 None (Some ''''),
           record_of ''early.csv'' ''FAILED'' 3600 None (Some ''boom'')] 0 86400 = Inr r \<and>
        errors r =
          [\<lparr> fileName_e = ''late.csv'', error_e = ''no such key'', timestamp_e = ''1970-01-01T02:00:00'' \<rparr>,
           \<lparr> fileName_e = ''early.csv'', error_e = ''boom'', timestamp_e = ''1970-01-01T01:00:00'' \<rparr>]"
proof -
  let ?d = "[record_of ''late.csv'' ''FAILED'' 7200 None (Some ''no such key''),
             record_of ''a.csv'' ''COMPLETED'' 0 (Some 7) None,
             record_of ''silent.csv'' ''FAILED'' 60 None None,
             record_of ''blank.csv'' ''FAILED'' 120 None (Some ''''),
             record_of ''early.csv'' ''FAILED'' 3600 None (Some ''boom'')]"
  have h1: "\<forall>i\<in>set ?d. \<not> isl (fromtimestamp utc (int_or_0 (uploadTimestamp i)))"
    by (simp add: utc_def utc_fromtimestamp_def int_or_0_def)
  have h2: "\<not> isl (int_truediv (total_size_bytes_of ?d) (1024 * 1024))"
    by code_simp
  have late: "error_entry_of utc (record_of ''late.csv'' ''FAILED'' 7200 None (Some ''no such key'')) =
      Inr \<lparr> fileName_e = ''late.csv'', error_e = ''no such key'', timestamp_e = ''1970-01-01T02:00:00'' \<rparr>"
    by code_simp
  have early: "error_entry_of utc (record_of ''early.csv'' ''FAILED'' 3600 None (Some ''boom'')) =
      Inr \<lparr> fileName_e = ''early.csv'', error_e = ''boom'', timestamp_e = ''1970-01-01T01:00:00'' \<rparr>"
    by code_simp
  from errors_first_ten_in_scan_order [OF h1 h2, of "''prod''" 86400 0 86400]
  obtain r where r: "generate_report utc ''prod'' 86400 ?d 0 86400 = Inr r"
    and e: "map Inr (errors r) =
      take 10 (map (error_entry_of utc)
        (filter (\<lambda>i. processingStatus i = Some ''FAILED''
                      \<and> errorMessage i \<noteq> None \<and> errorMessage i \<noteq> Some []) ?d))"
    by blast
  from e have "map Inr (errors r) =
      [Inr \<lparr> fileName_e = ''late.csv'', error_e = ''no such key'', timestamp_e = ''1970-01-01T02:00:00'' \<rparr>,
       Inr \<lparr> fileName_e = ''early.csv'', error_e = ''boom'', timestamp_e = ''1970-01-01T01:00:00'' \<rparr> :: exc + error_entry]"
    by (simp add: late early)
  then have "errors r =
      [\<lparr> fileName_e = ''late.csv'', error_e = ''no such key'', timestamp_e = ''1970-01-01T02:00:00'' \<rparr>,
       \<lparr> fileName_e = ''early.csv'', error_e = ''boom'', timestamp_e = ''1970-01-01T01:00:00'' \<rparr>]"
    by (auto simp: map_eq_Cons_conv)
  with r show ?thesis by blast
qed

text \<open>
  C9: the report is a function of the records, the window and the environment tag. Two
  runs on the same records and window that read the clock at different moments both raise
  the same exception or both return a report, and the two reports are equal in everything
  but the generated-at field: summary, hourly breakdown, error list and top files.
\<close>

theorem report_independent_of_generation_time:
  "map_sum id without_generated_at (generate_report lib env now1 data start_time end_time)
   = map_sum id without_generated_at (generate_report lib env now2 data start_time end_time)"
  unfolding generate_report_def Let_def without_generated_at_def
  by (simp split: sum.splits)

subsection \<open>Claims about the fetch\<close>

lemma pagination_paged_scan:
  assumes "0 < limit"
    and "LastEvaluatedKey response = (if pos + limit < length tbl then Some (pos + limit) else None)"
  shows "pagination (\<lambda>k. paged_scan tbl limit lo hi (Some k)) response items
           = Some (Inr (items @ filter (between lo hi) (drop (pos + limit) tbl)))"
  using assms(2)
proof (induction "length tbl - pos" arbitrary: pos response items rule: less_induct)
  case less
  show ?case
  proof (cases "pos + limit < length tbl")
    case False
    then show ?thesis using less.prems by (subst pagination.simps) simp
  next
    case True
    define k where "k = pos + limit"
    define response' where "response' =
      \<lparr> Items = Some (filter (between lo hi) (take limit (drop k tbl))),
        LastEvaluatedKey = (if k + limit < length tbl then Some (k + limit) else None) \<rparr>"
    have scan: "paged_scan tbl limit lo hi (Some k) = Inr response'"
      by (simp add: paged_scan_def response'_def)
    have "length tbl - k < length tbl - pos"
      using True assms(1) by (simp add: k_def)
    from less.hyps [OF this, of response' "items @ get_Items response'"]
    have IH: "pagination (\<lambda>k. paged_scan tbl limit lo hi (Some k)) response' (items @ get_Items response')
        = Some (Inr ((items @ get_Items response') @ filter (between lo hi) (drop (k + limit) tbl)))"
      by (simp add: response'_def)
    have "filter (between lo hi) (take limit (drop k tbl)) @ filter (between lo hi) (drop limit (drop k tbl))
        = filter (between lo hi) (drop k tbl)"
      by (simp only: filter_append [symmetric] append_take_drop_id)
    then have join: "get_Items response' @ filter (between lo hi) (drop (k + limit) tbl)
        = filter (between lo hi) (drop k tbl)"
      by (simp add: response'_def get_Items_def add.commute)
    have key: "LastEvaluatedKey response = Some k"
      using less.prems True by (simp add: k_def)
    show ?thesis
      by (subst pagination.simps) (simp add: key scan IH join flip: k_def)
  qed
qed

lemma fetch_report_data_paged_scan:
  assumes "0 < limit"
  shows "fetch_report_data lib (paged_scan tbl limit) start_time end_time =
           Some (Inr (filter (between (timestamp lib start_time) (timestamp lib end_time)) tbl))"
proof -
  define lo where "lo = timestamp lib start_time"
  define hi where "hi = timestamp lib end_time"
  define first where "first =
      \<lparr> Items = Some (filter (between lo hi) (take limit tbl)),
        LastEvaluatedKey = (if limit < length tbl then Some limit else None) \<rparr>"
  have scan: "paged_scan tbl limit lo hi None = Inr first"
    by (simp add: paged_scan_def first_def)
  have "LastEvaluatedKey first = (if 0 + limit < length tbl then Some (0 + limit) else None)"
    by (simp add: first_def)
  from pagination_paged_scan [OF assms this, of lo hi "get_Items first"]
  have "pagination (\<lambda>k. paged_scan tbl limit lo hi (Some k)) first (get_Items first)
      = Some (Inr (filter (between lo hi) (take limit tbl) @ filter (between lo hi) (drop limit tbl)))"
    by (simp add: first_def get_Items_def)
  also have "filter (between lo hi) (take limit tbl) @ filter (between lo hi) (drop limit tbl)
      = filter (between lo hi) tbl"
    by (simp only: filter_append [symmetric] append_take_drop_id)
  finally show ?thesis
    by (simp add: fetch_report_data_def scan flip: lo_def hi_def)
qed

text \<open>
  C7: against a store that answers a scan page by page (any table, any page limit above
  0), the fetch follows the continuation tokens to the last page and returns every record
  of the table that matches the window, in scan order; the report built from them counts
  them all. With 150 matching records and pages of 100 the total is 150.
\<close>

theorem fetch_follows_every_page:
  assumes "0 < limit"
  shows "fetch_report_data lib (paged_scan tbl limit) start_time end_time =
           Some (Inr (filter (between (timestamp lib start_time) (timestamp lib end_time)) tbl))
         \<and> ((\<forall>i\<in>set (filter (between (timestamp lib start_time) (timestamp lib end_time)) tbl).
                \<not> isl (fromtimestamp lib (int_or_0 (uploadTimestamp i))))
              \<and> \<not> isl (int_truediv
                      (total_size_bytes_of
                         (filter (between (timestamp lib start_time) (timestamp lib end_time)) tbl))
                      (1024 * 1024))
             \<longrightarrow> (\<exists>r. generate_report lib env now
                          (filter (between (timestamp lib start_time) (timestamp lib end_time)) tbl)
                          start_time end_time = Inr r
                      \<and> total_files_processed (summary r) =
                          length (filter (between (timestamp lib start_time) (timestamp lib end_time)) tbl)))"
proof -
  define matching where
    "matching = filter (between (timestamp lib start_time) (timestamp lib end_time)) tbl"
  have fetch: "fetch_report_data lib (paged_scan tbl limit) start_time end_time = Some (Inr matching)"
    unfolding matching_def by (rule fetch_report_data_paged_scan [OF assms])
  have "\<exists>r. generate_report lib env now matching start_time end_time = Inr r
          \<and> total_files_processed (summary r) = length matching"
    if ts: "\<forall>i\<in>set matching. \<not> isl (fromtimestamp lib (int_or_0 (uploadTimestamp i)))"
      and sz: "\<not> isl (int_truediv (total_size_bytes_of matching) (1024 * 1024))"
    using generate_report_returns [OF ts sz, of env now start_time end_time] by force
  with fetch show ?thesis unfolding matching_def by blast
qed

theorem fetch_follows_every_page_witness:
  "fetch_report_data utc (paged_scan (replicate 150 (record_of ''a.csv'' ''COMPLETED'' 3600 (Some 7) None)) 100)
       0 86400
     = Some (Inr (replicate 150 (record_of ''a.csv'' ''COMPLETED'' 3600 (Some 7) None)))
   \<and> (\<exists>r. generate_report utc ''prod'' 86400
             (replicate 150 (record_of ''a.csv'' ''COMPLETED'' 3600 (Some 7) None)) 0 86400 = Inr r
          \<and> total_files_processed (summary r) = 150)"
proof -
  let ?x = "record_of ''a.csv'' ''COMPLETED'' 3600 (Some 7) None"
  have m: "filter (between (timestamp utc 0) (timestamp utc 86400)) (replicate 150 ?x) = replicate 150 ?x"
    by (simp add: utc_def between_def)
  have h1: "\<forall>i\<in>set (replicate 150 ?x). \<not> isl (fromtimestamp utc (int_or_0 (uploadTimestamp i)))"
    by (simp add: utc_def utc_fromtimestamp_def int_or_0_def)
  have "total_size_bytes_of (replicate 150 ?x) = 307200"
    by (simp add: total_size_bytes_of_def int_or_0_def sum_list_replicate)
  moreover have "\<not> isl (int_truediv 307200 (1024 * 1024))"
    by code_simp
  ultimately have h2: "\<not> isl (int_truediv (total_size_bytes_of (replicate 150 ?x)) (1024 * 1024))"
    by simp
  have "(0::nat) < 100" by simp
  from fetch_follows_every_page [OF this, of utc "replicate 150 ?x" 0 86400 "''prod''" 86400]
  show ?thesis unfolding m using h1 h2 by simp
qed

section \<open>Properties of the ingestion worker\<close>

subsection \<open>Rows and their counts\<close>

lemma keys_dict_set: "fst ` set (dict_set k v d) = insert k (fst ` set d)"
  by (induction k v d rule: dict_set.induct) (simp_all add: insert_commute)

lemma keys_fold_zip:
  "fst ` set (fold (\<lambda>kv d. dict_set (Some (fst kv)) (Str (snd kv)) d) kvs d)
     = Some ` fst ` set kvs \<union> fst ` set d"
  by (induction kvs arbitrary: d) (simp_all add: keys_dict_set Un_commute insert_commute)

lemma keys_fold_rest:
  "fst ` set (fold (\<lambda>k d. dict_set (Some k) NoneCell d) ks d) = Some ` set ks \<union> fst ` set d"
  by (induction ks arbitrary: d) (simp_all add: keys_dict_set)

lemma None_key_dict_of_row:
  "None \<in> fst ` set (dict_of_row fieldnames row) \<longleftrightarrow> length fieldnames < length row"
  unfolding dict_of_row_def Let_def
  by (auto simp: keys_dict_set keys_fold_zip keys_fold_rest)

lemma cleaned_row_raises: "isl (cleaned_row items acc) \<longleftrightarrow> None \<in> fst ` set items"
proof (induction items arbitrary: acc)
  case Nil
  show ?case by simp
next
  case (Cons kv items)
  obtain k v where kv: "kv = (k, v)" by (cases kv)
  show ?case
  proof (cases k)
    case None
    with kv show ?thesis by simp
  next
    case (Some name)
    with kv Cons.IH show ?thesis by simp
  qed
qed

lemma rows_loop_counts:
  "rows_loop rt rows (c, recs, w) = (c', recs', w')
   \<Longrightarrow> total_records c' = total_records c + length rows
     \<and> invalid_records c' = invalid_records c + length (filter (\<lambda>r. isl (cleaned_row r [])) rows)
     \<and> valid_records c' = valid_records c + length (filter (\<lambda>r. \<not> isl (cleaned_row r [])) rows)"
proof (induction rows arbitrary: c recs w)
  case Nil
  then show ?case by simp
next
  case (Cons row rows)
  show ?case
  proof (cases "cleaned_row row []")
    case (Inl e)
    with Cons.prems have "rows_loop rt rows
        (c \<lparr> total_records := total_records c + 1, invalid_records := invalid_records c + 1 \<rparr>, recs, w)
        = (c', recs', w')"
      by (simp add: Let_def)
    from Cons.IH [OF this] Inl show ?thesis by simp
  next
    case (Inr cleaned)
    with Cons.prems obtain recs1 w1 where "rows_loop rt rows
        (c \<lparr> total_records := total_records c + 1, valid_records := valid_records c + 1 \<rparr>, recs1, w1)
        = (c', recs', w')"
      by (simp add: Let_def split: prod.splits)
    from Cons.IH [OF this] Inr show ?thesis by simp
  qed
qed

lemma process_csv_data_counts:
  "\<exists>p w'. process_csv_data rt (fieldnames # rest, None) w = (Inr p, w') \<and>
     summary_csv p =
       \<lparr> total_records = length (filter (\<lambda>row. row \<noteq> []) rest),
         valid_records = length (filter (\<lambda>row. row \<noteq> [] \<and> length row \<le> length fieldnames) rest),
         invalid_records = length (filter (\<lambda>row. length fieldnames < length row) rest) \<rparr>"
proof -
  define rows where "rows = DictReader (fieldnames # rest)"
  obtain c recs w1 where loop: "rows_loop rt rows
      (\<lparr> total_records = 0, valid_records = 0, invalid_records = 0 \<rparr>, [], w) = (c, recs, w1)"
    by (cases "rows_loop rt rows (\<lparr> total_records = 0, valid_records = 0, invalid_records = 0 \<rparr>, [], w)")
  have raises: "(\<lambda>r. isl (cleaned_row r [])) \<circ> dict_of_row fieldnames
      = (\<lambda>row. length fieldnames < length row)"
    by (simp add: fun_eq_iff cleaned_row_raises None_key_dict_of_row)
  have returns: "(\<lambda>r. \<not> isl (cleaned_row r [])) \<circ> dict_of_row fieldnames
      = (\<lambda>row. length row \<le> length fieldnames)"
    by (auto simp: fun_eq_iff cleaned_row_raises None_key_dict_of_row)
  have long: "(\<lambda>row. row \<noteq> [] \<and> length fieldnames < length row)
      = (\<lambda>row. length fieldnames < length row)"
    by (auto simp: fun_eq_iff)
  from rows_loop_counts [OF loop]
  have "total_records c = length (filter (\<lambda>row. row \<noteq> []) rest)"
    and "invalid_records c = length (filter (\<lambda>row. length fieldnames < length row) rest)"
    and "valid_records c = length (filter (\<lambda>row. row \<noteq> [] \<and> length row \<le> length fieldnames) rest)"
    by (simp_all add: rows_def DictReader_def filter_map raises returns long)
  then have "c = \<lparr> total_records = length (filter (\<lambda>row. row \<noteq> []) rest),
       valid_records = length (filter (\<lambda>row. row \<noteq> [] \<and> length row \<le> length fieldnames) rest),
       invalid_records = length (filter (\<lambda>row. length fieldnames < length row) rest) \<rparr>"
    by simp
  then show ?thesis
    using loop by (simp add: process_csv_data_def rows_def utcnow_def)
qed

lemma process_csv_data_raises: "fst (process_csv_data rt (rows, Some e) w) = Inl e"
  by (simp add: process_csv_data_def split: prod.splits)

subsection \<open>The two loops of the handler\<close>







subsection \<open>What a write does to the clock, the table and the stored timestamp\<close>

lemma map_of_dict_set: "map_of (dict_set k v d) = (map_of d)(k \<mapsto> v)"
  by (induction k v d rule: dict_set.induct) (auto simp: fun_eq_iff)

lemma update_metadata_item:
  "\<exists>item. update_metadata rt file_id file_name status file_size processed_key record_count
            error_message w = put_item rt item (w \<lparr> clock_reads := clock_reads w + 2 \<rparr>)
          \<and> map_of item ''fileId'' = Some (JStr file_id)
          \<and> map_of item ''uploadTimestamp'' = Some (JNum (clock rt (clock_reads w)))
          \<and> map_of item ''processingStatus'' = Some (JStr status)
          \<and> (record_count = None \<longrightarrow> map_of item ''recordCount'' = None)"
proof -
  define item where "item =
     [(''fileId'', JStr file_id), (''fileName'', file_name), (''processingStatus'', JStr status),
      (''uploadTimestamp'', JNum (clock rt (clock_reads w))), (''fileSize'', file_size),
      (''lastUpdated'', JStr (utc_isoformat (clock rt (clock_reads w + 1))))]"
  define item1 where "item1 =
     (case processed_key of
        None \<Rightarrow> item
      | Some k \<Rightarrow> if k \<noteq> [] then dict_set ''processedKey'' (JStr k) item else item)"
  define item2 where "item2 =
     (case record_count of None \<Rightarrow> item1 | Some n \<Rightarrow> dict_set ''recordCount'' (JNum (int n)) item1)"
  define item3 where "item3 =
     (case error_message of
        None \<Rightarrow> item2
      | Some m \<Rightarrow> if m \<noteq> [] then dict_set ''errorMessage'' (JStr m) item2 else item2)"
  have i0: "map_of item ''fileId'' = Some (JStr file_id)"
    "map_of item ''uploadTimestamp'' = Some (JNum (clock rt (clock_reads w)))"
    "map_of item ''processingStatus'' = Some (JStr status)"
    "map_of item ''recordCount'' = None"
    by (simp_all add: item_def)
  have i1: "map_of item1 ''fileId'' = Some (JStr file_id)"
    "map_of item1 ''uploadTimestamp'' = Some (JNum (clock rt (clock_reads w)))"
    "map_of item1 ''processingStatus'' = Some (JStr status)"
    "map_of item1 ''recordCount'' = None"
    using i0 by (simp_all add: item1_def map_of_dict_set split: option.splits)
  have i2: "map_of item2 ''fileId'' = Some (JStr file_id)"
    "map_of item2 ''uploadTimestamp'' = Some (JNum (clock rt (clock_reads w)))"
    "map_of item2 ''processingStatus'' = Some (JStr status)"
    "record_count = None \<longrightarrow> map_of item2 ''recordCount'' = None"
    using i1 by (simp_all add: item2_def map_of_dict_set split: option.splits)
  have i3: "map_of item3 ''fileId'' = Some (JStr file_id)"
    "map_of item3 ''uploadTimestamp'' = Some (JNum (clock rt (clock_reads w)))"
    "map_of item3 ''processingStatus'' = Some (JStr status)"
    "record_count = None \<longrightarrow> map_of item3 ''recordCount'' = None"
    using i2 by (simp_all add: item3_def map_of_dict_set split: option.splits)
  have "update_metadata rt file_id file_name status file_size processed_key record_count
      error_message w = put_item rt item3 (w \<lparr> clock_reads := clock_reads w + 2 \<rparr>)"
    by (cases processed_key; cases record_count; cases error_message)
      (simp_all add: update_metadata_def utcnow_def Let_def item3_def item2_def item1_def item_def)
  with i3 show ?thesis by blast
qed

lemma update_metadata_effect:
  assumes "update_metadata rt file_id file_name status file_size processed_key record_count
             error_message w = (r, w')"
  shows "clock_reads w' = clock_reads w + 2"
    and "table_calls w' = table_calls w + 1"
    and "uuids_drawn w' = uuids_drawn w"
    and "isl r \<longleftrightarrow> put_item_error rt (table_calls w) \<noteq> None"
    and "put_item_error rt (table_calls w) = None
         \<Longrightarrow> stored_uploadTimestamp w' file_id = Some (JNum (clock rt (clock_reads w)))"
proof -
  from update_metadata_item [of rt file_id file_name status file_size processed_key record_count
      error_message w] assms
  obtain item where put: "put_item rt item (w \<lparr> clock_reads := clock_reads w + 2 \<rparr>) = (r, w')"
    and key: "map_of item ''fileId'' = Some (JStr file_id)"
    and stamp: "map_of item ''uploadTimestamp'' = Some (JNum (clock rt (clock_reads w)))"
    by auto
  show "clock_reads w' = clock_reads w + 2" "table_calls w' = table_calls w + 1"
    "uuids_drawn w' = uuids_drawn w"
    using put key by (auto simp: put_item_def Let_def split: option.splits)
  show "isl r \<longleftrightarrow> put_item_error rt (table_calls w) \<noteq> None"
    using put key by (auto simp: put_item_def Let_def split: option.splits)
  show "stored_uploadTimestamp w' file_id = Some (JNum (clock rt (clock_reads w)))"
    if "put_item_error rt (table_calls w) = None"
    using put key stamp that by (auto simp: put_item_def Let_def stored_uploadTimestamp_def)
qed

lemma rows_loop_clock:
  "rows_loop rt rows (c, recs, w) = (c', recs', w')
   \<Longrightarrow> clock_reads w \<le> clock_reads w' \<and> table_calls w' = table_calls w"
proof (induction rows arbitrary: c recs w)
  case Nil
  then show ?case by simp
next
  case (Cons row rows)
  show ?case
  proof (cases "cleaned_row row []")
    case (Inl e)
    with Cons.prems have "rows_loop rt rows
        (c \<lparr> total_records := total_records c + 1, invalid_records := invalid_records c + 1 \<rparr>, recs, w)
        = (c', recs', w')"
      by (simp add: Let_def)
    from Cons.IH [OF this] show ?thesis .
  next
    case (Inr cleaned)
    with Cons.prems obtain recs1 where "rows_loop rt rows
        (c \<lparr> total_records := total_records c + 1, valid_records := valid_records c + 1 \<rparr>, recs1,
         w \<lparr> clock_reads := clock_reads w + 1, uuids_drawn := uuids_drawn w + 1 \<rparr>)
        = (c', recs', w')"
      by (simp add: Let_def utcnow_def new_uuid_def)
    from Cons.IH [OF this] show ?thesis by simp
  qed
qed

lemma rows_loop_table:
  "rows_loop rt rows (c, recs, w) = (c', recs', w') \<Longrightarrow> table w' = table w"
proof (induction rows arbitrary: c recs w)
  case Nil
  then show ?case by simp
next
  case (Cons row rows)
  show ?case
  proof (cases "cleaned_row row []")
    case (Inl e)
    with Cons.prems have "rows_loop rt rows
        (c \<lparr> total_records := total_records c + 1, invalid_records := invalid_records c + 1 \<rparr>, recs, w)
        = (c', recs', w')"
      by (simp add: Let_def)
    from Cons.IH [OF this] show ?thesis .
  next
    case (Inr cleaned)
    with Cons.prems obtain recs1 where "rows_loop rt rows
        (c \<lparr> total_records := total_records c + 1, valid_records := valid_records c + 1 \<rparr>, recs1,
         w \<lparr> clock_reads := clock_reads w + 1, uuids_drawn := uuids_drawn w + 1 \<rparr>)
        = (c', recs', w')"
      by (simp add: Let_def utcnow_def new_uuid_def)
    from Cons.IH [OF this] show ?thesis by simp
  qed
qed

lemma process_csv_data_clock:
  assumes "process_csv_data rt csv_content w = (r, w')"
  shows "clock_reads w \<le> clock_reads w' \<and> table_calls w' = table_calls w \<and> table w' = table w"
proof -
  obtain c recs w1 where loop: "rows_loop rt (DictReader (fst csv_content))
      (\<lparr> total_records = 0, valid_records = 0, invalid_records = 0 \<rparr>, [], w) = (c, recs, w1)"
    by (cases "rows_loop rt (DictReader (fst csv_content))
      (\<lparr> total_records = 0, valid_records = 0, invalid_records = 0 \<rparr>, [], w)")
  from assms loop have "w' = w1 \<or> w' = w1 \<lparr> clock_reads := clock_reads w1 + 1 \<rparr>"
    by (auto simp: process_csv_data_def utcnow_def split: option.splits)
  with rows_loop_clock [OF loop] rows_loop_table [OF loop] show ?thesis by auto
qed

lemma generate_output_key_clock:
  "generate_output_key rt input_key w = (r, w')
   \<Longrightarrow> clock_reads w \<le> clock_reads w' \<and> table_calls w' = table_calls w \<and> table w' = table w"
  by (auto simp: generate_output_key_def utcnow_def Let_def split: json.splits)

lemma s3_get_clock:
  "s3_get rt bucket_name object_key w = (r, w')
   \<Longrightarrow> clock_reads w' = clock_reads w \<and> table_calls w' = table_calls w \<and> table w' = table w"
  by (auto simp: s3_get_def)

lemma s3_put_clock:
  "s3_put rt output_key processed w = (r, w')
   \<Longrightarrow> clock_reads w' = clock_reads w \<and> table_calls w' = table_calls w \<and> table w' = table w"
  by (auto simp: s3_put_def Let_def split: option.splits)

text \<open>
  The \<open>try\<close> block begins with the PROCESSING write, so it reads the clock at least twice;
  when it returns, its last step was the COMPLETED write.
\<close>

lemma try_block_effect:
  assumes "try_block rt file_id bucket_name object_key file_size w = (r, w')"
  shows "clock_reads w + 2 \<le> clock_reads w'"
    and "\<not> isl r \<Longrightarrow> clock_reads w + 4 \<le> clock_reads w'
                    \<and> put_item_error rt (table_calls w' - 1) = None
                    \<and> stored_uploadTimestamp w' file_id = Some (JNum (clock rt (clock_reads w' - 2)))"
proof -
  obtain r1 w1 where s1: "update_metadata rt file_id object_key ''PROCESSING'' file_size
      None None None w = (r1, w1)"
    by (cases "update_metadata rt file_id object_key ''PROCESSING'' file_size None None None w")
  note e1 = update_metadata_effect [OF s1]
  show "clock_reads w + 2 \<le> clock_reads w'"
  proof (cases r1)
    case (Inl e)
    with assms s1 e1 show ?thesis by (simp add: try_block_def)
  next
    case (Inr u)
    obtain r2 w2 where s2: "s3_get rt bucket_name object_key w1 = (r2, w2)"
      by (cases "s3_get rt bucket_name object_key w1")
    note e2 = s3_get_clock [OF s2]
    show ?thesis
    proof (cases r2)
      case (Inl e)
      with assms s1 s2 Inr e1 e2 show ?thesis by (simp add: try_block_def)
    next
      case c2: (Inr file_content)
      obtain r3 w3 where s3: "process_csv_data rt file_content w2 = (r3, w3)"
        by (cases "process_csv_data rt file_content w2")
      note e3 = process_csv_data_clock [OF s3]
      show ?thesis
      proof (cases r3)
        case (Inl e)
        with assms s1 s2 s3 Inr c2 e1 e2 e3 show ?thesis by (simp add: try_block_def)
      next
        case c3: (Inr processed)
        obtain r4 w4 where s4: "generate_output_key rt object_key w3 = (r4, w4)"
          by (cases "generate_output_key rt object_key w3")
        note e4 = generate_output_key_clock [OF s4]
        show ?thesis
        proof (cases r4)
          case (Inl e)
          with assms s1 s2 s3 s4 Inr c2 c3 e1 e2 e3 e4 show ?thesis by (simp add: try_block_def)
        next
          case c4: (Inr output_key)
          obtain r5 w5 where s5: "s3_put rt output_key processed w4 = (r5, w5)"
            by (cases "s3_put rt output_key processed w4")
          note e5 = s3_put_clock [OF s5]
          show ?thesis
          proof (cases r5)
            case (Inl e)
            with assms s1 s2 s3 s4 s5 Inr c2 c3 c4 e1 e2 e3 e4 e5 show ?thesis
              by (simp add: try_block_def)
          next
            case c5: (Inr u5)
            from assms s1 s2 s3 s4 s5 Inr c2 c3 c4 c5
            have s6: "update_metadata rt file_id object_key ''COMPLETED'' file_size
                (Some output_key) (Some (length (records processed))) None w5 = (r, w')"
              by (simp add: try_block_def)
            from update_metadata_effect(1) [OF s6] e1 e2 e3 e4 e5 show ?thesis by simp
          qed
        qed
      qed
    qed
  qed
  show "clock_reads w + 4 \<le> clock_reads w'
      \<and> put_item_error rt (table_calls w' - 1) = None
      \<and> stored_uploadTimestamp w' file_id = Some (JNum (clock rt (clock_reads w' - 2)))"
    if ok: "\<not> isl r"
  proof -
    from assms ok obtain u where r1: "r1 = Inr u"
      using s1 by (cases r1) (auto simp: try_block_def)
    obtain r2 w2 where s2: "s3_get rt bucket_name object_key w1 = (r2, w2)"
      by (cases "s3_get rt bucket_name object_key w1")
    note e2 = s3_get_clock [OF s2]
    from assms ok obtain file_content where r2: "r2 = Inr file_content"
      using s1 r1 s2 by (cases r2) (auto simp: try_block_def)
    obtain r3 w3 where s3: "process_csv_data rt file_content w2 = (r3, w3)"
      by (cases "process_csv_data rt file_content w2")
    note e3 = process_csv_data_clock [OF s3]
    from assms ok obtain processed where r3: "r3 = Inr processed"
      using s1 r1 s2 r2 s3 by (cases r3) (auto simp: try_block_def)
    obtain r4 w4 where s4: "generate_output_key rt object_key w3 = (r4, w4)"
      by (cases "generate_output_key rt object_key w3")
    note e4 = generate_output_key_clock [OF s4]
    from assms ok obtain output_key where r4: "r4 = Inr output_key"
      using s1 r1 s2 r2 s3 r3 s4 by (cases r4) (auto simp: try_block_def)
    obtain r5 w5 where s5: "s3_put rt output_key processed w4 = (r5, w5)"
      by (cases "s3_put rt output_key processed w4")
    note e5 = s3_put_clock [OF s5]
    from assms ok obtain u5 where r5: "r5 = Inr u5"
      using s1 r1 s2 r2 s3 r3 s4 r4 s5 by (cases r5) (auto simp: try_block_def)
    from assms s1 r1 s2 r2 s3 r3 s4 r4 s5 r5
    have s6: "update_metadata rt file_id object_key ''COMPLETED'' file_size
        (Some output_key) (Some (length (records processed))) None w5 = (r, w')"
      by (simp add: try_block_def)
    note e6 = update_metadata_effect [OF s6]
    from e6(4) ok have put: "put_item_error rt (table_calls w5) = None"
      by (cases "put_item_error rt (table_calls w5)") auto
    from e6(5) [OF put] e6(1) e6(2) put e1 e2 e3 e4 e5 show ?thesis by simp
  qed
qed

subsection \<open>The worker gives a record count to COMPLETED items only\<close>

lemma put_item_keeps:
  assumes "put_item rt item w = (r, w')"
      and "P item"
      and "\<forall>stored\<in>ran (table w). P stored"
  shows "\<forall>stored\<in>ran (table w'). P stored"
proof -
  from assms(1) have "table w' = table w \<or> (\<exists>k. table w' = (table w)(k \<mapsto> item))"
    by (auto simp: put_item_def Let_def split: option.splits json.splits)
  then have "ran (table w') \<subseteq> insert item (ran (table w))"
    by (auto simp: ran_def split: if_splits)
  with assms(2,3) show ?thesis by auto
qed

lemma update_metadata_keeps:
  assumes "update_metadata rt file_id file_name status file_size processed_key record_count
             error_message w = (r, w')"
      and "record_count = None \<or> status = ''COMPLETED''"
      and "\<forall>stored\<in>ran (table w). count_only_when_completed stored"
  shows "\<forall>stored\<in>ran (table w'). count_only_when_completed stored"
proof -
  from update_metadata_item [of rt file_id file_name status file_size processed_key record_count
      error_message w] assms(1)
  obtain item where put: "put_item rt item (w \<lparr> clock_reads := clock_reads w + 2 \<rparr>) = (r, w')"
    and st: "map_of item ''processingStatus'' = Some (JStr status)"
    and rc: "record_count = None \<longrightarrow> map_of item ''recordCount'' = None"
    by auto
  from st rc assms(2) have "count_only_when_completed item"
    by (auto simp: count_only_when_completed_def)
  from put_item_keeps [OF put, of count_only_when_completed, OF this] assms(3)
  show ?thesis by simp
qed

lemma try_block_keeps:
  assumes "try_block rt file_id bucket_name object_key file_size w = (r, w')"
      and inv: "\<forall>stored\<in>ran (table w). count_only_when_completed stored"
  shows "\<forall>stored\<in>ran (table w'). count_only_when_completed stored"
proof -
  obtain r1 w1 where s1: "update_metadata rt file_id object_key ''PROCESSING'' file_size
      None None None w = (r1, w1)"
    by (cases "update_metadata rt file_id object_key ''PROCESSING'' file_size None None None w")
  from update_metadata_keeps [OF s1 _ inv]
  have i1: "\<forall>stored\<in>ran (table w1). count_only_when_completed stored" by simp
  show ?thesis
  proof (cases r1)
    case (Inl e)
    with assms(1) s1 i1 show ?thesis by (simp add: try_block_def)
  next
    case (Inr u)
    obtain r2 w2 where s2: "s3_get rt bucket_name object_key w1 = (r2, w2)"
      by (cases "s3_get rt bucket_name object_key w1")
    from s3_get_clock [OF s2] i1
    have i2: "\<forall>stored\<in>ran (table w2). count_only_when_completed stored" by simp
    show ?thesis
    proof (cases r2)
      case (Inl e)
      with assms(1) s1 s2 Inr i2 show ?thesis by (simp add: try_block_def)
    next
      case c2: (Inr file_content)
      obtain r3 w3 where s3: "process_csv_data rt file_content w2 = (r3, w3)"
        by (cases "process_csv_data rt file_content w2")
      from process_csv_data_clock [OF s3] i2
      have i3: "\<forall>stored\<in>ran (table w3). count_only_when_completed stored" by simp
      show ?thesis
      proof (cases r3)
        case (Inl e)
        with assms(1) s1 s2 s3 Inr c2 i3 show ?thesis by (simp add: try_block_def)
      next
        case c3: (Inr processed)
        obtain r4 w4 where s4: "generate_output_key rt object_key w3 = (r4, w4)"
          by (cases "generate_output_key rt object_key w3")
        from generate_output_key_clock [OF s4] i3
        have i4: "\<forall>stored\<in>ran (table w4). count_only_when_completed stored" by simp
        show ?thesis
        proof (cases r4)
          case (Inl e)
          with assms(1) s1 s2 s3 s4 Inr c2 c3 i4 show ?thesis by (simp add: try_block_def)
        next
          case c4: (Inr output_key)
          obtain r5 w5 where s5: "s3_put rt output_key processed w4 = (r5, w5)"
            by (cases "s3_put rt output_key processed w4")
          from s3_put_clock [OF s5] i4
          have i5: "\<forall>stored\<in>ran (table w5). count_only_when_completed stored" by simp
          show ?thesis
          proof (cases r5)
            case (Inl e)
            with assms(1) s1 s2 s3 s4 s5 Inr c2 c3 c4 i5 show ?thesis by (simp add: try_block_def)
          next
            case c5: (Inr u5)
            from assms(1) s1 s2 s3 s4 s5 Inr c2 c3 c4 c5
            have s6: "update_metadata rt file_id object_key ''COMPLETED'' file_size
                (Some output_key) (Some (length (records processed))) None w5 = (r, w')"
              by (simp add: try_block_def)
            from update_metadata_keeps [OF s6 _ i5] show ?thesis by simp
          qed
        qed
      qed
    qed
  qed
qed

lemma process_s3_event_keeps:
  assumes "process_s3_event rt s3_record w = (ok, w')"
      and inv: "\<forall>stored\<in>ran (table w). count_only_when_completed stored"
  shows "\<forall>stored\<in>ran (table w'). count_only_when_completed stored"
proof (cases "extract_s3 s3_record")
  case (Inl e)
  with assms show ?thesis by (simp add: process_s3_event_def)
next
  case (Inr x)
  obtain bucket_name object_key file_size where x: "x = (bucket_name, object_key, file_size)"
    by (cases x)
  define file_id where "file_id = uuid4 rt (uuids_drawn w)"
  define w1 where "w1 = w \<lparr> uuids_drawn := uuids_drawn w + 1 \<rparr>"
  have uuid: "new_uuid rt w = (file_id, w1)"
    by (simp add: new_uuid_def file_id_def w1_def)
  from inv have i1: "\<forall>stored\<in>ran (table w1). count_only_when_completed stored"
    by (simp add: w1_def)
  obtain r w2 where tb: "try_block rt file_id bucket_name object_key file_size w1 = (r, w2)"
    by (cases "try_block rt file_id bucket_name object_key file_size w1")
  from try_block_keeps [OF tb i1]
  have i2: "\<forall>stored\<in>ran (table w2). count_only_when_completed stored" .
  show ?thesis
  proof (cases r)
    case c: (Inr u)
    with assms(1) Inr x uuid tb i2 show ?thesis by (simp add: process_s3_event_def)
  next
    case c: (Inl e)
    obtain r3 w3 where s3: "update_metadata rt file_id object_key ''FAILED'' file_size
        None None (Some (snd e)) w2 = (r3, w3)"
      by (cases "update_metadata rt file_id object_key ''FAILED'' file_size None None (Some (snd e)) w2")
    from update_metadata_keeps [OF s3 _ i2]
    have "\<forall>stored\<in>ran (table w3). count_only_when_completed stored" by simp
    with assms(1) Inr x uuid tb c s3 show ?thesis by (simp add: process_s3_event_def)
  qed
qed

lemma s3_records_loop_keeps:
  "s3_records_loop rt xs (s, f, w) = (s', f', w')
   \<Longrightarrow> \<forall>stored\<in>ran (table w). count_only_when_completed stored
   \<Longrightarrow> \<forall>stored\<in>ran (table w'). count_only_when_completed stored"
proof (induction xs arbitrary: s f w)
  case Nil
  then show ?case by simp
next
  case (Cons x xs)
  obtain ok w1 where step: "process_s3_event rt x w = (ok, w1)"
    by (cases "process_s3_event rt x w")
  from process_s3_event_keeps [OF step Cons.prems(2)]
  have i1: "\<forall>stored\<in>ran (table w1). count_only_when_completed stored" .
  show ?case
  proof (cases ok)
    case True
    with step Cons.prems(1) have "s3_records_loop rt xs (s + 1, f, w1) = (s', f', w')" by simp
    from Cons.IH [OF this i1] show ?thesis .
  next
    case False
    with step Cons.prems(1) have "s3_records_loop rt xs (s, f + 1, w1) = (s', f', w')" by simp
    from Cons.IH [OF this i1] show ?thesis .
  qed
qed

lemma records_loop_keeps:
  "records_loop rt recs (s, f, w) = (s', f', w')
   \<Longrightarrow> \<forall>stored\<in>ran (table w). count_only_when_completed stored
   \<Longrightarrow> \<forall>stored\<in>ran (table w'). count_only_when_completed stored"
proof (induction recs arbitrary: s f w)
  case Nil
  then show ?case by simp
next
  case (Cons r recs)
  show ?case
  proof (cases "embedded_events r")
    case (Inl e)
    with Cons.prems(1) have "records_loop rt recs (s, f + 1, w) = (s', f', w')" by simp
    from Cons.IH [OF this Cons.prems(2)] show ?thesis .
  next
    case (Inr evs)
    obtain s1 f1 w1 where inner: "s3_records_loop rt evs (s, f, w) = (s1, f1, w1)"
      by (cases "s3_records_loop rt evs (s, f, w)") auto
    from s3_records_loop_keeps [OF inner Cons.prems(2)]
    have i1: "\<forall>stored\<in>ran (table w1). count_only_when_completed stored" .
    from Inr inner Cons.prems(1) have "records_loop rt recs (s1, f1, w1) = (s', f', w')" by simp
    from Cons.IH [OF this i1] show ?thesis .
  qed
qed

lemma handler_keeps:
  assumes "\<forall>stored\<in>ran (table w). count_only_when_completed stored"
  shows "\<forall>stored\<in>ran (table (snd (handler rt event w))). count_only_when_completed stored"
proof -
  obtain s f w1 where loop: "records_loop rt (Records event) (0, 0, w) = (s, f, w1)"
    by (cases "records_loop rt (Records event) (0, 0, w)") auto
  from records_loop_keeps [OF loop assms] loop show ?thesis
    by (simp add: handler_def)
qed

lemma written_by_worker_counts:
  "written_by_worker w \<Longrightarrow> \<forall>stored\<in>ran (table w). count_only_when_completed stored"
proof (induction rule: written_by_worker.induct)
  case (empty_table w)
  then show ?case by simp
next
  case (invocation w rt event)
  then show ?case by (simp add: handler_keeps)
qed

lemma as_item_counts:
  assumes "as_item stored = Some i" and "count_only_when_completed stored"
  shows "recordCount i \<noteq> None \<longrightarrow> processingStatus i = Some ''COMPLETED''"
proof -
  from assms(1) have rc: "num_attr stored ''recordCount'' = Some (recordCount i)"
    and st: "str_attr stored ''processingStatus'' = Some (processingStatus i)"
    by (auto simp: as_item_def split: option.splits)
  show ?thesis
  proof
    assume "recordCount i \<noteq> None"
    with rc have "map_of stored ''recordCount'' \<noteq> None"
      by (auto simp: num_attr_def split: option.splits)
    with assms(2) have "map_of stored ''processingStatus'' = Some (JStr ''COMPLETED'')"
      by (simp add: count_only_when_completed_def)
    with st show "processingStatus i = Some ''COMPLETED''"
      by (simp add: str_attr_def)
  qed
qed

subsection \<open>The example inputs\<close>

lemma extract_s3_upload_event:
  "extract_s3 (upload_event bucket key n) = Inr (JStr bucket, JStr key, JNum n)"
  by (simp add: extract_s3_def subscript3_def)

lemma pad2_0: "pad2 0 = ''00''"
  by code_simp

lemma pad2_1: "pad2 1 = ''01''"
  by code_simp

lemma pad2_2: "pad2 2 = ''02''"
  by code_simp

text \<open>The definitions that evaluate one event against the example runtime.\<close>

lemmas run_example =
  process_s3_event_def extract_s3_upload_event new_uuid_def try_block_def update_metadata_def
  utcnow_def put_item_def example_runtime_def empty_world_def s3_get_def s3_put_def Let_def
  pad2_0 pad2_1 pad2_2 process_csv_data_def DictReader_def dict_of_row_def generate_output_key_def

subsection \<open>Claims about the ingestion worker\<close>

text \<open>
  C1, as the specification states it: \<open>uploadTimestamp\<close> is written once, at the
  PROCESSING write, and the later write of the same record leaves it alone. Every write
  builds the item anew with the clock reading of that write. With a clock that has moved
  on by a second between the two writes, the PROCESSING write of the record \<open>id-00\<close> stores
  1700000000 and the table holds 1700000001 once the event is processed.
\<close>

theorem uploadTimestamp_changes_on_completion:
  "stored_uploadTimestamp
     (snd (update_metadata example_runtime ''id-00'' (JStr ''in/a.csv'') ''PROCESSING'' (JNum 12)
             None None None (snd (new_uuid example_runtime empty_world)))) ''id-00''
     = Some (JNum 1700000000)
   \<and> fst (process_s3_event example_runtime (upload_event ''uploads'' ''in/a.csv'' 12) empty_world)
   \<and> stored_uploadTimestamp
       (snd (process_s3_event example_runtime (upload_event ''uploads'' ''in/a.csv'' 12) empty_world))
       ''id-00''
     = Some (JNum 1700000001)"
  by (simp add: run_example stored_uploadTimestamp_def)

text \<open>
  C1, amended: every write of a record stores as \<open>uploadTimestamp\<close> the clock reading taken
  at that write. The PROCESSING write stores the first reading of the event's processing.
  When processing ends, with the COMPLETED write or with a FAILED write that the table
  accepts, the record holds the reading taken at that last write, which is at least the
  third reading after the one stored at creation: the two are equal only when the clock
  shows the same second both times.
\<close>

theorem uploadTimestamp_is_time_of_last_write:
  assumes "extract_s3 s3_record = Inr (bucket_name, object_key, file_size)"
      and "process_s3_event rt s3_record w = (ok, w')"
      and "put_item_error rt (table_calls w' - 1) = None"
  shows "(put_item_error rt (table_calls w) = None \<longrightarrow>
            stored_uploadTimestamp
              (snd (update_metadata rt (uuid4 rt (uuids_drawn w)) object_key ''PROCESSING'' file_size
                      None None None (snd (new_uuid rt w))))
              (uuid4 rt (uuids_drawn w))
            = Some (JNum (clock rt (clock_reads w))))
         \<and> stored_uploadTimestamp w' (uuid4 rt (uuids_drawn w))
             = Some (JNum (clock rt (clock_reads w' - 2)))
         \<and> clock_reads w + 2 \<le> clock_reads w' - 2"
proof -
  define file_id where "file_id = uuid4 rt (uuids_drawn w)"
  define w1 where "w1 = w \<lparr> uuids_drawn := uuids_drawn w + 1 \<rparr>"
  have uuid: "new_uuid rt w = (file_id, w1)"
    by (simp add: new_uuid_def file_id_def w1_def)
  have w1: "clock_reads w1 = clock_reads w" "table_calls w1 = table_calls w"
    by (simp_all add: w1_def)
  have creation: "stored_uploadTimestamp
      (snd (update_metadata rt file_id object_key ''PROCESSING'' file_size None None None w1)) file_id
      = Some (JNum (clock rt (clock_reads w)))"
    if "put_item_error rt (table_calls w) = None"
  proof -
    obtain r0 w0 where s0: "update_metadata rt file_id object_key ''PROCESSING'' file_size
        None None None w1 = (r0, w0)"
      by (cases "update_metadata rt file_id object_key ''PROCESSING'' file_size None None None w1")
    from update_metadata_effect(5) [OF s0] that w1 s0 show ?thesis by simp
  qed
  obtain r w2 where tb: "try_block rt file_id bucket_name object_key file_size w1 = (r, w2)"
    by (cases "try_block rt file_id bucket_name object_key file_size w1")
  have last: "stored_uploadTimestamp w' file_id = Some (JNum (clock rt (clock_reads w' - 2)))
      \<and> clock_reads w + 4 \<le> clock_reads w'"
  proof (cases r)
    case (Inr u)
    with assms(1,2) uuid tb have "w' = w2" by (simp add: process_s3_event_def)
    with try_block_effect(2) [OF tb] Inr w1 show ?thesis by simp
  next
    case (Inl e)
    obtain r3 w3 where s3: "update_metadata rt file_id object_key ''FAILED'' file_size
        None None (Some (snd e)) w2 = (r3, w3)"
      by (cases "update_metadata rt file_id object_key ''FAILED'' file_size None None (Some (snd e)) w2")
    from assms(1,2) uuid tb Inl s3 have w': "w' = w3" by (simp add: process_s3_event_def)
    note e3 = update_metadata_effect [OF s3]
    from assms(3) e3(2) have "put_item_error rt (table_calls w2) = None" by (simp add: w')
    from e3(5) [OF this] e3(1) try_block_effect(1) [OF tb] w1 show ?thesis by (simp add: w')
  qed
  from last have later: "clock_reads w + 2 \<le> clock_reads w' - 2" by arith
  from creation last later show ?thesis
    by (simp add: uuid file_id_def)
qed

theorem uploadTimestamp_is_time_of_last_write_witness:
  "stored_uploadTimestamp
     (snd (process_s3_event example_runtime (upload_event ''uploads'' ''in/a.csv'' 12) empty_world))
     (uuid4 example_runtime 0)
   = Some (JNum (clock example_runtime
       (clock_reads
          (snd (process_s3_event example_runtime (upload_event ''uploads'' ''in/a.csv'' 12) empty_world))
        - 2)))
   \<and> stored_uploadTimestamp
     (snd (process_s3_event example_runtime (upload_event ''uploads'' ''in/missing.csv'' 12) empty_world))
     (uuid4 example_runtime 0)
   = Some (JNum (clock example_runtime
       (clock_reads
          (snd (process_s3_event example_runtime (upload_event ''uploads'' ''in/missing.csv'' 12) empty_world))
        - 2)))"
proof -
  have x: "extract_s3 (upload_event ''uploads'' key 12) = Inr (JStr ''uploads'', JStr key, JNum 12)"
    for key
    by (rule extract_s3_upload_event)
  have p: "process_s3_event example_runtime s3_record empty_world =
      (fst (process_s3_event example_runtime s3_record empty_world),
       snd (process_s3_event example_runtime s3_record empty_world))" for s3_record
    by simp
  have e: "put_item_error example_runtime n = None" for n
    by (simp add: example_runtime_def)
  have u: "uuids_drawn empty_world = 0"
    by (simp add: empty_world_def)
  from uploadTimestamp_is_time_of_last_write [OF x p e]
  show ?thesis unfolding u by blast
qed



text \<open>
  C4, as the specification states it: the row transform never raises, so the invalid-row
  counter of a file with a header row is 0. A data row with more fields than the header
  reaches the transform with its surplus fields under the key \<open>None\<close>, and \<open>k.strip()\<close>
  raises on that key: the file with header \<open>a,b\<close> and the one row \<open>1,2,3\<close> has one invalid
  row and no valid one.
\<close>

theorem long_row_is_counted_invalid:
  "map_sum id summary_csv
     (fst (process_csv_data example_runtime ([[''a'', ''b''], [''1'', ''2'', ''3'']], None) empty_world))
   = Inr \<lparr> total_records = 1, valid_records = 0, invalid_records = 1 \<rparr>"
  by (simp add: process_csv_data_def DictReader_def dict_of_row_def utcnow_def Let_def)

text \<open>
  C4, amended: for every delimited input with a header row that the reader reads to its
  end, the summary is returned; its total counts the data rows (the rows after the header
  that are not empty), its invalid-row counter counts the data rows with more fields than
  the header, and its valid-row counter the others. So when no data row is longer than
  the header, \<open>invalid_records\<close> is 0 and \<open>valid_records\<close> equals \<open>total_records\<close>. For an input
  on which the reader raises, whatever rows it has yielded before, the function raises
  the reader's exception and returns no summary.
\<close>

theorem invalid_rows_are_the_long_rows:
  "(\<exists>p w'. process_csv_data rt (fieldnames # rest, None) w = (Inr p, w') \<and>
      summary_csv p =
        \<lparr> total_records = length (filter (\<lambda>row. row \<noteq> []) rest),
          valid_records = length (filter (\<lambda>row. row \<noteq> [] \<and> length row \<le> length fieldnames) rest),
          invalid_records = length (filter (\<lambda>row. length fieldnames < length row) rest) \<rparr> \<and>
      ((\<forall>row\<in>set rest. length row \<le> length fieldnames) \<longrightarrow>
         invalid_records (summary_csv p) = 0 \<and>
         valid_records (summary_csv p) = total_records (summary_csv p)))
   \<and> fst (process_csv_data rt (rows, Some e) w) = Inl e"
proof -
  have short: "filter (\<lambda>row. length fieldnames < length row) rest = []"
    "filter (\<lambda>row. row \<noteq> [] \<and> length row \<le> length fieldnames) rest
       = filter (\<lambda>row. row \<noteq> []) rest"
    if "\<forall>row\<in>set rest. length row \<le> length fieldnames"
    using that by (induction rest) auto
  from process_csv_data_counts [of rt fieldnames rest w]
  obtain p w' where p: "process_csv_data rt (fieldnames # rest, None) w = (Inr p, w')"
    and s: "summary_csv p =
        \<lparr> total_records = length (filter (\<lambda>row. row \<noteq> []) rest),
          valid_records = length (filter (\<lambda>row. row \<noteq> [] \<and> length row \<le> length fieldnames) rest),
          invalid_records = length (filter (\<lambda>row. length fieldnames < length row) rest) \<rparr>"
    by blast
  from s short have "(\<forall>row\<in>set rest. length row \<le> length fieldnames) \<longrightarrow>
      invalid_records (summary_csv p) = 0 \<and> valid_records (summary_csv p) = total_records (summary_csv p)"
    by simp
  with p s show ?thesis
    using process_csv_data_raises [of rt rows e w] by blast
qed

theorem invalid_rows_are_the_long_rows_witness:
  "map_sum id summary_csv
     (fst (process_csv_data example_runtime
        ([['' name'', ''qty''], [''pen '', ''2''], [], [''ink'']], None) empty_world))
   = Inr \<lparr> total_records = 2, valid_records = 2, invalid_records = 0 \<rparr>
   \<and> fst (process_csv_data example_runtime
        ([[''a'', ''b''], [''1'', ''2'']], Some (CsvError, ''new-line character seen in unquoted field''))
        empty_world)
     = Inl (CsvError, ''new-line character seen in unquoted field'')"
proof -
  have h: "\<forall>row\<in>set [[''pen '', ''2''], [], [''ink'']]. length row \<le> length ['' name'', ''qty'']"
    by simp
  from invalid_rows_are_the_long_rows
    [of example_runtime "['' name'', ''qty'']" "[[''pen '', ''2''], [], [''ink'']]" empty_world
        "[[''a'', ''b''], [''1'', ''2'']]" "(CsvError, ''new-line character seen in unquoted field'')"]
  obtain p w' where "process_csv_data example_runtime
      ([['' name'', ''qty''], [''pen '', ''2''], [], [''ink'']], None) empty_world = (Inr p, w')"
    and "summary_csv p = \<lparr> total_records = 2, valid_records = 2, invalid_records = 0 \<rparr>"
    and "fst (process_csv_data example_runtime
        ([[''a'', ''b''], [''1'', ''2'']], Some (CsvError, ''new-line character seen in unquoted field''))
        empty_world)
      = Inl (CsvError, ''new-line character seen in unquoted field'')"
    by auto
  then show ?thesis by simp
qed




section \<open>The report over the worker's table\<close>

text \<open>
  C2: the metadata table has one writer, the ingestion worker, and it gives a record
  count to COMPLETED items only. Over any records read back from a table the worker has
  written, the total-records figure of the report is the sum of \<open>recordCount\<close> over the
  COMPLETED records that have the field; a record with any other status has no
  \<open>recordCount\<close> and adds nothing.
\<close>

theorem total_records_sums_completed_records:
  assumes "written_by_worker w"
      and "\<forall>i\<in>set data. \<exists>stored\<in>ran (table w). as_item stored = Some i"
      and "\<forall>i\<in>set data. \<not> isl (fromtimestamp lib (int_or_0 (uploadTimestamp i)))"
      and "\<not> isl (int_truediv (total_size_bytes_of data) (1024 * 1024))"
  shows "\<exists>r. generate_report lib env now data start_time end_time = Inr r \<and>
           total_records_processed (summary r) = spec_total_records data \<and>
           total_records_processed (summary r) =
             sum_list (map (\<lambda>i. int_or_0 (recordCount i))
               (filter (\<lambda>i. processingStatus i = Some ''COMPLETED'' \<and> recordCount i \<noteq> None) data)) \<and>
           (\<forall>i\<in>set data. processingStatus i \<noteq> Some ''COMPLETED'' \<longrightarrow> recordCount i = None)"
proof -
  from written_by_worker_counts [OF assms(1)]
  have inv: "\<forall>stored\<in>ran (table w). count_only_when_completed stored" .
  have only: "\<forall>i\<in>set data. recordCount i \<noteq> None \<longrightarrow> processingStatus i = Some ''COMPLETED''"
  proof
    fix i
    assume "i \<in> set data"
    with assms(2) obtain stored where "stored \<in> ran (table w)" "as_item stored = Some i"
      by blast
    with inv as_item_counts [of stored i]
    show "recordCount i \<noteq> None \<longrightarrow> processingStatus i = Some ''COMPLETED''"
      by blast
  qed
  from generate_report_returns [OF assms(3,4), of env now start_time end_time]
  obtain r where r: "generate_report lib env now data start_time end_time = Inr r"
    and t: "total_records_processed (summary r) = total_records_of data"
    by force
  from t have "total_records_processed (summary r) = spec_total_records data"
    by (simp only: total_records_of_present spec_total_records_when_completed [OF only])
  with r only show ?thesis
    by (auto simp: spec_total_records_def)
qed

theorem total_records_sums_completed_records_witness:
  "\<exists>r. generate_report utc ''prod'' 1700003600
          [\<lparr> fileName = Some ''in/a.csv'', processingStatus = Some ''COMPLETED'',
              uploadTimestamp = Some 1700000001, fileSize = Some 12, recordCount = Some 1,
              errorMessage = None \<rparr>,
           \<lparr> fileName = Some ''in/missing.csv'', processingStatus = Some ''FAILED'',
              uploadTimestamp = Some 1700000002, fileSize = Some 12, recordCount = None,
              errorMessage = Some ''NoSuchKey'' \<rparr>] 1699917200 1700003600 = Inr r \<and>
        total_records_processed (summary r) = 1"
proof -
  let ?event = "\<lparr> Records = [Inr (JObj [(''Records'', JArr [upload_event ''uploads'' ''in/a.csv'' 12,
                                                      upload_event ''uploads'' ''in/missing.csv'' 12])])] \<rparr>"
  let ?w = "snd (handler example_runtime ?event empty_world)"
  let ?a = "\<lparr> fileName = Some ''in/a.csv'', processingStatus = Some ''COMPLETED'',
              uploadTimestamp = Some 1700000001, fileSize = Some 12, recordCount = Some 1,
              errorMessage = None \<rparr>"
  let ?m = "\<lparr> fileName = Some ''in/missing.csv'', processingStatus = Some ''FAILED'',
              uploadTimestamp = Some 1700000002, fileSize = Some 12, recordCount = None,
              errorMessage = Some ''NoSuchKey'' \<rparr>"
  have "written_by_worker empty_world"
    by (rule empty_table) (simp add: empty_world_def)
  then have w: "written_by_worker ?w"
    by (rule invocation)
  have ta: "map_option as_item (table ?w ''id-00'') = Some (Some ?a)"
    by (simp add: handler_def embedded_events_def run_example as_item_def str_attr_def num_attr_def)
  have tm: "map_option as_item (table ?w ''id-02'') = Some (Some ?m)"
    by (simp add: handler_def embedded_events_def run_example as_item_def str_attr_def num_attr_def)
  from ta obtain sa where "table ?w ''id-00'' = Some sa" "as_item sa = Some ?a"
    by (auto simp: map_option_case split: option.splits)
  then have ra: "\<exists>stored\<in>ran (table ?w). as_item stored = Some ?a"
    by (auto intro: ranI)
  from tm obtain sm where "table ?w ''id-02'' = Some sm" "as_item sm = Some ?m"
    by (auto simp: map_option_case split: option.splits)
  then have rm: "\<exists>stored\<in>ran (table ?w). as_item stored = Some ?m"
    by (auto intro: ranI)
  from ra rm have d: "\<forall>i\<in>set [?a, ?m]. \<exists>stored\<in>ran (table ?w). as_item stored = Some i"
    by simp
  have h1: "\<forall>i\<in>set [?a, ?m]. \<not> isl (fromtimestamp utc (int_or_0 (uploadTimestamp i)))"
    by (simp add: utc_def utc_fromtimestamp_def int_or_0_def)
  have "\<bar>total_size_bytes_of [?a, ?m]\<bar> < 2 ^ 1000"
    by (simp add: total_size_bytes_of_def int_or_0_def)
  then have h2: "\<not> isl (int_truediv (total_size_bytes_of [?a, ?m]) (1024 * 1024))"
    by (rule int_truediv_returns)
  have s: "spec_total_records [?a, ?m] = 1"
    by (simp add: spec_total_records_def int_or_0_def)
  from total_records_sums_completed_records
    [OF w d h1 h2, of "''prod''" 1700003600 1699917200 1700003600] s
  show ?thesis by auto
qed

end
